theory Spec2Isabelle
  imports Complex_Main "HOL-Library.AList" "HOL-Library.Sublist" "HOL-Library.Log_Nat"
begin

section \<open>Job lifecycle of the document generator backend (server.py)\<close>

text \<open>
  The development follows \<^verbatim>\<open>src/server.py\<close>. The file
  \<^verbatim>\<open>src/server_redis.py\<close> holds the same handlers and runners; it reaches the
  store through \<^verbatim>\<open>get_job_status\<close>, \<^verbatim>\<open>set_job_status\<close> and
  \<^verbatim>\<open>update_job_status\<close> (a read, an update of the same fields, a write) and adds
  the field \<^verbatim>\<open>_createdOn\<close> at creation. With a store that answers, Redis or
  the table used when Redis was not reachable at start, these are the reads and writes
  modelled here; the expiry of Redis keys and a store that fails during a request are not
  modelled.

  Conventions of the embedding:
  \<^item> a Python float is the rational number it stands for, and every operation on floats
    rounds its exact result to the nearest IEEE 754 double, ties to even (\<open>fl\<close> below);
    the exponent is unbounded, so overflow, subnormal numbers and NaN are not modelled;
  \<^item> every reading of the clock and every random suffix is a parameter of the function
    that takes it;
  \<^item> the job table \<^verbatim>\<open>job_statuses\<close> is an association list in insertion order, with
    \<^const>\<open>map_of\<close> as \<^verbatim>\<open>dict.get\<close> and \<^const>\<open>AList.update\<close> as item assignment;
  \<^item> a background thread is a record of its local variables and a program counter; one
    step of a thread is one block of the source that reads the job record, tests it and
    writes it, executed without interruption. The source takes no lock, so this is the
    behaviour of the program when no other thread runs between the test and the write;
    the section on blocks in two steps has the executions in which one does, and the
    property of terminal records is stated on those.
\<close>

subsection \<open>Python floats\<close>

text \<open>Rounding to the nearest integer, ties to the even one.\<close>

definition round_even :: "rat \<Rightarrow> int" where
  "round_even x =
     (let f = \<lfloor>x\<rfloor>; d = x - of_int f
      in if d < 1 / 2 then f else if 1 / 2 < d then f + 1 else if even f then f else f + 1)"

text \<open>The binary exponent of a positive number: \<open>2 powi expo x \<le> x < 2 powi (expo x + 1)\<close>.\<close>

definition expo :: "rat \<Rightarrow> int" where
  "expo x = (if 1 \<le> x then bitlen \<lfloor>x\<rfloor> - 1 else - bitlen (\<lceil>1 / x\<rceil> - 1))"

text \<open>A double has 53 significant bits: a positive number is rounded to a multiple of
  \<open>2 powi (expo x - 52)\<close>.\<close>

definition fl_pos :: "rat \<Rightarrow> rat" where
  "fl_pos x = of_int (round_even (x / 2 powi (expo x - 52))) * 2 powi (expo x - 52)"

definition fl :: "rat \<Rightarrow> rat" where
  "fl x = (if x = 0 then 0 else if 0 < x then fl_pos x else - fl_pos (- x))"

text \<open>The arithmetic of floats, the conversion \<^verbatim>\<open>float(n)\<close> that an integer operand
  undergoes, and the true division \<^verbatim>\<open>a / b\<close> of two integers.\<close>

definition fadd :: "rat \<Rightarrow> rat \<Rightarrow> rat" where
  "fadd x y = fl (x + y)"

definition fsub :: "rat \<Rightarrow> rat \<Rightarrow> rat" where
  "fsub x y = fl (x - y)"

definition fmul :: "rat \<Rightarrow> rat \<Rightarrow> rat" where
  "fmul x y = fl (x * y)"

definition fdiv :: "rat \<Rightarrow> rat \<Rightarrow> rat" where
  "fdiv x y = fl (x / y)"

definition py_float :: "int \<Rightarrow> rat" where
  "py_float n = fl (of_int n)"

definition py_truediv :: "int \<Rightarrow> int \<Rightarrow> rat" where
  "py_truediv a b = fl (of_int a / of_int b)"

subsection \<open>Python values\<close>

text \<open>\<^verbatim>\<open>int(x)\<close> of a float truncates towards zero.\<close>

definition py_int :: "rat \<Rightarrow> int" where
  "py_int x = (if 0 \<le> x then \<lfloor>x\<rfloor> else \<lceil>x\<rceil>)"

text \<open>\<^verbatim>\<open>v or d\<close> for a value that is a string or \<^verbatim>\<open>None\<close>: both \<^verbatim>\<open>None\<close>
  and the empty string are false.\<close>

definition py_or :: "string option \<Rightarrow> string \<Rightarrow> string" where
  "py_or v d = (case v of None \<Rightarrow> d | Some s \<Rightarrow> if s = [] then d else s)"

definition digit_char :: "nat \<Rightarrow> char" where
  "digit_char d =
     (if d = 0 then CHR ''0'' else if d = 1 then CHR ''1'' else if d = 2 then CHR ''2''
      else if d = 3 then CHR ''3'' else if d = 4 then CHR ''4'' else if d = 5 then CHR ''5''
      else if d = 6 then CHR ''6'' else if d = 7 then CHR ''7'' else if d = 8 then CHR ''8''
      else CHR ''9'')"

fun str_nat :: "nat \<Rightarrow> string" where
  "str_nat n = (if n < 10 then [digit_char n] else str_nat (n div 10) @ [digit_char (n mod 10)])"

declare str_nat.simps [simp del]

text \<open>The decimal text of an integer inside an f-string.\<close>

definition py_str_int :: "int \<Rightarrow> string" where
  "py_str_int i = (if i < 0 then ''-'' @ str_nat (nat (- i)) else str_nat (nat i))"

subsection \<open>The job record\<close>

datatype stage_name =
  Initializing | Analyzing | Generating | Formatting | Finalizing | Completed | Failed

text \<open>
  \<^verbatim>\<open>cleanup_old_jobs\<close> reads \<^verbatim>\<open>startTime\<close> with a default and subtracts it from the
  clock, so the field is kept as a dynamic value: a number, or a value that is not one.
  An absent key is \<^const>\<open>None\<close>.
\<close>

datatype py_val = IntVal int | StrVal string

record job_status =
  jobId :: string
  stage :: stage_name
  progress :: int
  message :: string
  startTime :: "py_val option"
  estimatedTimeRemaining :: int
  currentStep :: string
  totalSteps :: int
  completedSteps :: int
  details :: "string list"
  docHtml :: "string option"
  pdfUrl :: "string option"

type_synonym job_table = "(string \<times> job_status) list"

subsection \<open>Background threads\<close>

text \<open>
  The program counter of a thread: before its first statement, before the block that
  enters stage \<open>i\<close>, before tick \<open>j\<close> of stage \<open>i\<close>, before the final block,
  and after it. The local variables of a thread hold 0 until its first block sets them.
\<close>

datatype pc = AtStart | AtStage nat | AtTick nat nat | AtFinal | Finished

record gen_runner =
  g_job_id :: string
  g_prompt :: string
  g_start_time :: rat
  g_completed_steps :: int
  g_pc :: pc

record ref_runner =
  f_job_id :: string
  f_prompt :: "string option"
  f_selection_html :: "string option"
  f_full_doc_html :: "string option"
  f_start_time :: rat
  f_pc :: pc

datatype runner = GenRunner gen_runner | RefRunner ref_runner

record system =
  job_statuses :: job_table
  threads :: "runner list"

definition empty_system :: system where
  "empty_system = \<lparr>job_statuses = [], threads = []\<rparr>"

subsection \<open>Responses\<close>

datatype response =
    ErrorResponse nat string
  | JobStarted (resp_jobId: string) (resp_message: string) (resp_docHtml: string)
      (resp_statusUrl: string)
  | MessageResponse string
  | StatusResponse job_status

subsection \<open>Request handlers\<close>

text \<open>\<^verbatim>\<open>int(time.time() * 1000)\<close>, for the reading \<open>t\<close> of the clock.\<close>

definition millis :: "rat \<Rightarrow> int" where
  "millis t = py_int (fmul t (py_float 1000))"

text \<open>\<^verbatim>\<open>f"job_{int(time.time() * 1000)}_{generate_random_string(9)}"\<close>\<close>

definition new_job_id :: "rat \<Rightarrow> string \<Rightarrow> string" where
  "new_job_id t rnd = ''job_'' @ py_str_int (millis t) @ ''_'' @ rnd"


definition initial_generation_status :: "string \<Rightarrow> rat \<Rightarrow> job_status" where
  "initial_generation_status job_id t_start =
     \<lparr>jobId = job_id, stage = Initializing, progress = 0,
      message = ''Starting document generation...'',
      startTime = Some (IntVal (millis t_start)),
      estimatedTimeRemaining = 1800, currentStep = ''Initializing'',
      totalSteps = 5, completedSteps = 0,
      details = [''Job created'', ''Validating prompt''],
      docHtml = None, pdfUrl = None\<rparr>"

text \<open>
  \<^verbatim>\<open>generate_document\<close>: \<open>t_id\<close> and \<open>t_start\<close> are the two readings of the
  clock, \<open>rnd\<close> the random suffix, \<open>prompt\<close> the value of \<^verbatim>\<open>data.get('prompt')\<close>.
\<close>

definition generate_document ::
  "rat \<Rightarrow> rat \<Rightarrow> string \<Rightarrow> string option \<Rightarrow> system \<Rightarrow> response \<times> system" where
  "generate_document t_id t_start rnd prompt sys =
     (case prompt of
        None \<Rightarrow> (ErrorResponse 400 ''Prompt is required'', sys)
      | Some p \<Rightarrow>
          if p = [] then (ErrorResponse 400 ''Prompt is required'', sys)
          else
            let job_id = new_job_id t_id rnd in
              (JobStarted job_id ''Generation started'' ''<p>Processing...</p>''
                 (''/api/status/'' @ job_id),
               \<lparr>job_statuses =
                  AList.update job_id (initial_generation_status job_id t_start)
                    (job_statuses sys),
                threads = threads sys @
                  [GenRunner \<lparr>g_job_id = job_id, g_prompt = p, g_start_time = 0,
                     g_completed_steps = 0, g_pc = AtStart\<rparr>]\<rparr>))"

record refine_request =
  rq_jobId :: "string option"
  rq_prompt :: "string option"
  rq_selectionHtml :: "string option"
  rq_fullDocHtml :: "string option"

definition initial_refinement_status :: "string \<Rightarrow> rat \<Rightarrow> job_status" where
  "initial_refinement_status job_id t_start =
     \<lparr>jobId = job_id, stage = Analyzing, progress = 5,
      message = ''Analyzing content for refinement...'',
      startTime = Some (IntVal (millis t_start)),
      estimatedTimeRemaining = 900, currentStep = ''Analyzing'',
      totalSteps = 4, completedSteps = 0,
      details = [''Refinement started'', ''Analyzing existing content''],
      docHtml = None, pdfUrl = None\<rparr>"

definition refine_document ::
  "rat \<Rightarrow> rat \<Rightarrow> string \<Rightarrow> refine_request \<Rightarrow> system \<Rightarrow> response \<times> system" where
  "refine_document t_id t_start rnd data sys =
     (let job_id = py_or (rq_jobId data) (new_job_id t_id rnd) in
        (JobStarted job_id ''Refinement started''
           (py_or (rq_fullDocHtml data) ''<p>Processing...</p>'')
           (''/api/status/'' @ job_id),
         \<lparr>job_statuses =
            AList.update job_id (initial_refinement_status job_id t_start)
              (job_statuses sys),
          threads = threads sys @
            [RefRunner \<lparr>f_job_id = job_id, f_prompt = rq_prompt data,
               f_selection_html = rq_selectionHtml data,
               f_full_doc_html = rq_fullDocHtml data, f_start_time = 0,
               f_pc = AtStart\<rparr>]\<rparr>))"

definition cancel_job :: "string \<Rightarrow> system \<Rightarrow> response \<times> system" where
  "cancel_job job_id sys =
     (case map_of (job_statuses sys) job_id of
        None \<Rightarrow> (ErrorResponse 404 ''Job not found'', sys)
      | Some status \<Rightarrow>
          if stage status = Completed \<or> stage status = Failed
          then (MessageResponse ''Job already completed'', sys)
          else
            (MessageResponse ''Job cancelled successfully'',
             sys\<lparr>job_statuses :=
                AList.update job_id
                  (status\<lparr>stage := Failed, message := ''Job cancelled by user'',
                     estimatedTimeRemaining := 0\<rparr>)
                  (job_statuses sys)\<rparr>))"

subsection \<open>The generation runner\<close>

record stage_info =
  si_stage :: stage_name
  si_progress :: int
  si_duration :: int
  si_message :: string
  si_step :: string
  si_details :: "string list"

definition gen_stages :: "stage_info list" where
  "gen_stages =
     [\<lparr>si_stage = Analyzing, si_progress = 10, si_duration = 300,
       si_message = ''Analyzing prompt and gathering context...'',
       si_step = ''Analyzing input'',
       si_details = [''Parsing prompt structure'', ''Identifying key topics'',
         ''Determining document structure'']\<rparr>,
      \<lparr>si_stage = Generating, si_progress = 40, si_duration = 900,
       si_message = ''Generating document content...'',
       si_step = ''Content generation'',
       si_details = [''Creating outline'', ''Generating introduction'',
         ''Writing main sections'', ''Adding supporting details'']\<rparr>,
      \<lparr>si_stage = Formatting, si_progress = 75, si_duration = 480,
       si_message = ''Formatting and styling document...'',
       si_step = ''Formatting'',
       si_details = [''Applying styles'', ''Formatting headings'',
         ''Adding spacing and layout'']\<rparr>,
      \<lparr>si_stage = Finalizing, si_progress = 90, si_duration = 120,
       si_message = ''Finalizing document and generating PDF...'',
       si_step = ''Finalizing'',
       si_details = [''Quality checks'', ''Generating PDF'', ''Creating preview'']\<rparr>]"

text \<open>\<^verbatim>\<open>DEMO_MODE = True\<close>, so \<^verbatim>\<open>speed_multiplier = 60\<close>.\<close>

definition speed_multiplier :: int where
  "speed_multiplier = 60"

text \<open>
  \<^verbatim>\<open>sum(s['duration'] * 1000 / speed_multiplier for s in stages)\<close>: the sum starts
  from the integer 0 and adds from left to right. The four summands and all partial sums
  are integers, so no addition rounds.
\<close>

definition total_duration :: rat where
  "total_duration =
     foldl fadd (py_float 0)
       (map (\<lambda>s. py_truediv (si_duration s * 1000) speed_multiplier) gen_stages)"

text \<open>\<^verbatim>\<open>2000 / speed_multiplier\<close>\<close>

definition update_interval :: rat where
  "update_interval = py_truediv 2000 speed_multiplier"

text \<open>\<^verbatim>\<open>int((stage_info['duration'] * 1000 / speed_multiplier) / update_interval)\<close>\<close>

definition updates :: "stage_info \<Rightarrow> int" where
  "updates si =
     py_int (fdiv (py_truediv (si_duration si * 1000) speed_multiplier) update_interval)"

text \<open>\<^verbatim>\<open>time.time() * 1000 - start_time\<close>\<close>

definition elapsed :: "rat \<Rightarrow> rat \<Rightarrow> rat" where
  "elapsed t start_time = fsub (fmul t (py_float 1000)) start_time"

text \<open>\<^verbatim>\<open>max(0, int((total_duration - elapsed_time) / 1000))\<close>\<close>

definition remaining_time :: "rat \<Rightarrow> int" where
  "remaining_time elapsed_time =
     max 0 (py_int (fdiv (fsub total_duration elapsed_time) (py_float 1000)))"

text \<open>\<^verbatim>\<open>stages[i + 1]['progress'] if i + 1 < len(stages) else 100\<close>\<close>

definition next_stage_progress :: "nat \<Rightarrow> int" where
  "next_stage_progress i =
     (if i + 1 < length gen_stages then si_progress (gen_stages ! (i + 1)) else 100)"

text \<open>The value a tick writes to \<^verbatim>\<open>progress\<close>, for stage \<open>i\<close> and loop index \<open>j\<close>.\<close>

definition tick_progress :: "nat \<Rightarrow> nat \<Rightarrow> int" where
  "tick_progress i j =
     (let stage_info = gen_stages ! i;
          stage_progress_range = next_stage_progress i - si_progress stage_info;
          progress_increment =
            fmul (py_truediv stage_progress_range (updates stage_info))
              (py_float (int j + 1))
      in min (next_stage_progress i - 1)
           (py_int (fadd (py_float (si_progress stage_info)) progress_increment)))"

definition generate_mock_document :: "string \<Rightarrow> string" where
  "generate_mock_document prompt =
     ''\<newline>    <h1>Generated Document</h1>\<newline>    <p><strong>Based on prompt:</strong> '' @
     prompt @
     ''</p>\<newline>    <h2>Introduction</h2>\<newline>    <p>This is a sample document generated based on your prompt. In a real implementation, this would be generated by your LLM.</p>\<newline>    <h2>Main Content</h2>\<newline>    <p>Lorem ipsum dolor sit amet, consectetur adipiscing elit. Sed do eiusmod tempor incididunt ut labore et dolore magna aliqua.</p>\<newline>    <ul>\<newline>      <li>First key point</li>\<newline>      <li>Second key point</li>\<newline>      <li>Third key point</li>\<newline>    </ul>\<newline>    <h2>Conclusion</h2>\<newline>    <p>This concludes the generated document. You can edit this content using the TipTap editor.</p>\<newline>  ''"

text \<open>The three writes of \<^verbatim>\<open>process_document_generation\<close>, as updates of the record.\<close>

definition gen_stage_write :: "stage_info \<Rightarrow> int \<Rightarrow> int \<Rightarrow> job_status \<Rightarrow> job_status" where
  "gen_stage_write stage_info completed_steps remaining status =
     status\<lparr>stage := si_stage stage_info, progress := si_progress stage_info,
       message := si_message stage_info, currentStep := si_step stage_info,
       completedSteps := completed_steps, estimatedTimeRemaining := remaining,
       details := details status @ si_details stage_info\<rparr>"

definition gen_tick_write :: "nat \<Rightarrow> nat \<Rightarrow> int \<Rightarrow> job_status \<Rightarrow> job_status" where
  "gen_tick_write i j new_remaining current_status =
     current_status\<lparr>progress := tick_progress i j,
       estimatedTimeRemaining := new_remaining\<rparr>"

definition gen_final_write :: "string \<Rightarrow> string \<Rightarrow> job_status \<Rightarrow> job_status" where
  "gen_final_write job_id prompt final_status =
     final_status\<lparr>stage := Completed, progress := 100,
       message := ''Document generation completed successfully!'',
       completedSteps := 5, estimatedTimeRemaining := 0,
       details := details final_status @ [''Generation complete''],
       docHtml := Some (generate_mock_document prompt),
       pdfUrl := Some (''/api/pdf/'' @ job_id)\<rparr>"

text \<open>Where the outer loop continues after stage \<open>i\<close>: the next stage, or the final block.\<close>

definition gen_next_stage :: "nat \<Rightarrow> pc" where
  "gen_next_stage i = (if i + 1 < length gen_stages then AtStage (i + 1) else AtFinal)"

text \<open>
  One block of \<^verbatim>\<open>process_document_generation\<close>; \<open>t\<close> is the reading of
  \<^verbatim>\<open>time.time()\<close> taken in the block. A \<^verbatim>\<open>break\<close> of the outer loop leads to the
  final block, a \<^verbatim>\<open>break\<close> of the tick loop to the next stage. A loop index beyond
  its range stands for the end of that loop.
\<close>

definition gen_step :: "rat \<Rightarrow> job_table \<Rightarrow> gen_runner \<Rightarrow> job_table \<times> gen_runner" where
  "gen_step t tbl g =
     (case g_pc g of
        AtStart \<Rightarrow>
          (tbl, g\<lparr>g_start_time := fmul t (py_float 1000), g_completed_steps := 1,
                  g_pc := AtStage 0\<rparr>)
      | AtStage i \<Rightarrow>
          if i < length gen_stages then
            (case map_of tbl (g_job_id g) of
               None \<Rightarrow> (tbl, g\<lparr>g_pc := AtFinal\<rparr>)
             | Some status \<Rightarrow>
                 if stage status = Failed then (tbl, g\<lparr>g_pc := AtFinal\<rparr>)
                 else
                   let stage_info = gen_stages ! i;
                       elapsed_time = elapsed t (g_start_time g)
                   in (AList.update (g_job_id g)
                         (gen_stage_write stage_info (g_completed_steps g)
                            (remaining_time elapsed_time) status) tbl,
                       g\<lparr>g_completed_steps := g_completed_steps g + 1,
                         g_pc := (if 0 < updates stage_info then AtTick i 0
                                  else gen_next_stage i)\<rparr>))
          else (tbl, g\<lparr>g_pc := AtFinal\<rparr>)
      | AtTick i j \<Rightarrow>
          if i < length gen_stages then
            if int j < updates (gen_stages ! i) then
              (case map_of tbl (g_job_id g) of
                 None \<Rightarrow> (tbl, g\<lparr>g_pc := gen_next_stage i\<rparr>)
               | Some current_status \<Rightarrow>
                   if stage current_status = Failed
                   then (tbl, g\<lparr>g_pc := gen_next_stage i\<rparr>)
                   else
                     let new_elapsed_time = elapsed t (g_start_time g)
                     in (AList.update (g_job_id g)
                           (gen_tick_write i j (remaining_time new_elapsed_time)
                              current_status) tbl,
                         g\<lparr>g_pc := (if int (j + 1) < updates (gen_stages ! i)
                                    then AtTick i (j + 1) else gen_next_stage i)\<rparr>))
            else (tbl, g\<lparr>g_pc := gen_next_stage i\<rparr>)
          else (tbl, g\<lparr>g_pc := AtFinal\<rparr>)
      | AtFinal \<Rightarrow>
          (case map_of tbl (g_job_id g) of
             None \<Rightarrow> (tbl, g\<lparr>g_pc := Finished\<rparr>)
           | Some final_status \<Rightarrow>
               if stage final_status \<noteq> Failed
               then (AList.update (g_job_id g)
                       (gen_final_write (g_job_id g) (g_prompt g) final_status) tbl,
                     g\<lparr>g_pc := Finished\<rparr>)
               else (tbl, g\<lparr>g_pc := Finished\<rparr>))
      | Finished \<Rightarrow> (tbl, g))"

subsection \<open>The refinement runner\<close>

record ref_stage_info =
  rs_stage :: stage_name
  rs_progress :: int
  rs_duration :: int
  rs_message :: string

definition ref_stages :: "ref_stage_info list" where
  "ref_stages =
     [\<lparr>rs_stage = Analyzing, rs_progress = 20, rs_duration = 3,
       rs_message = ''Analyzing content...''\<rparr>,
      \<lparr>rs_stage = Generating, rs_progress = 60, rs_duration = 7,
       rs_message = ''Refining content...''\<rparr>,
      \<lparr>rs_stage = Finalizing, rs_progress = 95, rs_duration = 2,
       rs_message = ''Finalizing changes...''\<rparr>]"

text \<open>\<^verbatim>\<open>max(0, 12 - int(time.time() - start_time))\<close>\<close>

definition ref_remaining_time :: "rat \<Rightarrow> rat \<Rightarrow> int" where
  "ref_remaining_time t start_time = max 0 (12 - py_int (fsub t start_time))"

definition ref_stage_write :: "ref_stage_info \<Rightarrow> int \<Rightarrow> job_status \<Rightarrow> job_status" where
  "ref_stage_write stage_info remaining status =
     status\<lparr>stage := rs_stage stage_info, progress := rs_progress stage_info,
       message := rs_message stage_info, estimatedTimeRemaining := remaining\<rparr>"

text \<open>
  \<^verbatim>\<open>(full_doc_html + '<p>Refined content added.</p>') if full_doc_html
    else '<p>Refined content</p>'\<close>
\<close>

definition refined_html :: "string option \<Rightarrow> string" where
  "refined_html full_doc_html =
     (case full_doc_html of
        None \<Rightarrow> ''<p>Refined content</p>''
      | Some h \<Rightarrow>
          if h = [] then ''<p>Refined content</p>'' else h @ ''<p>Refined content added.</p>'')"

definition ref_final_write :: "string option \<Rightarrow> job_status \<Rightarrow> job_status" where
  "ref_final_write full_doc_html final_status =
     final_status\<lparr>stage := Completed, progress := 100,
       message := ''Refinement completed!'', estimatedTimeRemaining := 0,
       docHtml := Some (refined_html full_doc_html)\<rparr>"

text \<open>One block of \<^verbatim>\<open>process_refinement\<close>; its stages have no tick loop.\<close>

definition ref_step :: "rat \<Rightarrow> job_table \<Rightarrow> ref_runner \<Rightarrow> job_table \<times> ref_runner" where
  "ref_step t tbl f =
     (case f_pc f of
        AtStart \<Rightarrow> (tbl, f\<lparr>f_start_time := t, f_pc := AtStage 0\<rparr>)
      | AtStage k \<Rightarrow>
          if k < length ref_stages then
            (case map_of tbl (f_job_id f) of
               None \<Rightarrow> (tbl, f\<lparr>f_pc := AtFinal\<rparr>)
             | Some status \<Rightarrow>
                 if stage status = Failed then (tbl, f\<lparr>f_pc := AtFinal\<rparr>)
                 else
                   (AList.update (f_job_id f)
                      (ref_stage_write (ref_stages ! k)
                         (ref_remaining_time t (f_start_time f)) status) tbl,
                    f\<lparr>f_pc := (if k + 1 < length ref_stages then AtStage (k + 1)
                               else AtFinal)\<rparr>))
          else (tbl, f\<lparr>f_pc := AtFinal\<rparr>)
      | AtTick i j \<Rightarrow> (tbl, f\<lparr>f_pc := AtFinal\<rparr>)
      | AtFinal \<Rightarrow>
          (case map_of tbl (f_job_id f) of
             None \<Rightarrow> (tbl, f\<lparr>f_pc := Finished\<rparr>)
           | Some final_status \<Rightarrow>
               if stage final_status \<noteq> Failed
               then (AList.update (f_job_id f)
                       (ref_final_write (f_full_doc_html f) final_status) tbl,
                     f\<lparr>f_pc := Finished\<rparr>)
               else (tbl, f\<lparr>f_pc := Finished\<rparr>))
      | Finished \<Rightarrow> (tbl, f))"

subsection \<open>The retention sweeper\<close>

datatype py_error = TypeError

definition TWO_HOURS :: int where
  "TWO_HOURS = 2 * 60 * 60 * 1000"

text \<open>
  \<^verbatim>\<open>now - status.get('startTime', now) > TWO_HOURS\<close>: an absent key takes the
  default \<open>now\<close>; subtracting a value that is not a number raises.
\<close>

definition is_old :: "rat \<Rightarrow> job_status \<Rightarrow> py_error + bool" where
  "is_old now status =
     (case startTime status of
        None \<Rightarrow> Inr (fsub now now > of_int TWO_HOURS)
      | Some (IntVal n) \<Rightarrow> Inr (fsub now (py_float n) > of_int TWO_HOURS)
      | Some (StrVal v) \<Rightarrow> Inl TypeError)"

text \<open>The list comprehension over \<^verbatim>\<open>job_statuses.items()\<close>, in the table's order.\<close>

fun job_ids_to_delete :: "rat \<Rightarrow> job_table \<Rightarrow> py_error + string list" where
  "job_ids_to_delete now [] = Inr []"
| "job_ids_to_delete now ((job_id, status) # rest) =
     (case is_old now status of
        Inl e \<Rightarrow> Inl e
      | Inr old \<Rightarrow>
          (case job_ids_to_delete now rest of
             Inl e \<Rightarrow> Inl e
           | Inr ids \<Rightarrow> Inr (if old then job_id # ids else ids)))"

text \<open>
  One pass of the loop body of \<^verbatim>\<open>cleanup_old_jobs\<close>, woken at clock reading
  \<open>t\<close>. An exception leaves the comprehension before any deletion.
\<close>

definition cleanup_pass :: "rat \<Rightarrow> job_table \<Rightarrow> py_error + job_table" where
  "cleanup_pass t tbl =
     (case job_ids_to_delete (fmul t (py_float 1000)) tbl of
        Inl e \<Rightarrow> Inl e
      | Inr ids \<Rightarrow> Inr (fold AList.delete ids tbl))"

text \<open>
  \<^verbatim>\<open>time.sleep(300)\<close> called at clock reading \<open>c\<close> (in seconds) returns 300 seconds
  later, or later still by \<open>lag\<close> milliseconds; the clock is taken to advance by the time
  that passes.
\<close>

definition sleep_until :: "rat \<Rightarrow> nat \<Rightarrow> rat" where
  "sleep_until c lag = c + 300 + of_nat lag / 1000"

text \<open>
  The loop of \<^verbatim>\<open>cleanup_old_jobs\<close>, entered at clock reading \<open>c\<close>, for as many rounds
  as \<open>lags\<close> has entries (a finite prefix of the endless loop): each round sleeps and
  then makes one pass at the clock reading of its wake-up. The lag of a round stands for
  all the time of the round beyond the 300 seconds. The result is the list of the clock
  readings at which a pass was made, and the table after the last round or the exception
  that ended the thread.
\<close>

fun cleanup_loop :: "rat \<Rightarrow> nat list \<Rightarrow> job_table \<Rightarrow> rat list \<times> (py_error + job_table)" where
  "cleanup_loop c [] tbl = ([], Inr tbl)"
| "cleanup_loop c (lag # lags) tbl =
     (let t = sleep_until c lag in
      case cleanup_pass t tbl of
        Inl e \<Rightarrow> ([t], Inl e)
      | Inr tbl' \<Rightarrow> (case cleanup_loop t lags tbl' of (ts, r) \<Rightarrow> (t # ts, r)))"

text \<open>
  In \<^verbatim>\<open>server_redis.py\<close> the function returns at once when \<^verbatim>\<open>USE_REDIS\<close> is set;
  \<^verbatim>\<open>server.py\<close> has no such flag (\<open>use_redis = False\<close>).
\<close>

definition cleanup_old_jobs ::
  "bool \<Rightarrow> rat \<Rightarrow> nat list \<Rightarrow> job_table \<Rightarrow> rat list \<times> (py_error + job_table)" where
  "cleanup_old_jobs use_redis c lags tbl =
     (if use_redis then ([], Inr tbl) else cleanup_loop c lags tbl)"

subsection \<open>Executions\<close>

text \<open>
  An event is a request handled by the server, one block of a background thread (by its
  position in the list of threads), or one pass of the sweeper; the rationals are the
  readings of the clock taken by the event, the string of a creation its random suffix.
\<close>

datatype event =
    Generate rat rat string "string option"
  | Refine rat rat string refine_request
  | Cancel string
  | RunnerStep nat rat
  | Sweep rat

definition runner_step :: "rat \<Rightarrow> job_table \<Rightarrow> runner \<Rightarrow> job_table \<times> runner" where
  "runner_step t tbl r =
     (case r of
        GenRunner g \<Rightarrow> (case gen_step t tbl g of (tbl', g') \<Rightarrow> (tbl', GenRunner g'))
      | RefRunner f \<Rightarrow> (case ref_step t tbl f of (tbl', f') \<Rightarrow> (tbl', RefRunner f')))"

fun step :: "event \<Rightarrow> system \<Rightarrow> system" where
  "step (Generate t_id t_start rnd prompt) sys =
     snd (generate_document t_id t_start rnd prompt sys)"
| "step (Refine t_id t_start rnd data) sys = snd (refine_document t_id t_start rnd data sys)"
| "step (Cancel job_id) sys = snd (cancel_job job_id sys)"
| "step (RunnerStep n t) sys =
     (if n < length (threads sys) then
        (case runner_step t (job_statuses sys) (threads sys ! n) of
           (tbl', r') \<Rightarrow> \<lparr>job_statuses = tbl', threads = (threads sys)[n := r']\<rparr>)
      else sys)"
| "step (Sweep t) sys =
     (case cleanup_pass t (job_statuses sys) of
        Inl e \<Rightarrow> sys
      | Inr tbl' \<Rightarrow> sys\<lparr>job_statuses := tbl'\<rparr>)"

fun exec :: "event list \<Rightarrow> system \<Rightarrow> system" where
  "exec [] sys = sys"
| "exec (e # es) sys = exec es (step e sys)"

text \<open>The record of a job after each event of an execution, the starting state first.\<close>

fun snapshots :: "string \<Rightarrow> event list \<Rightarrow> system \<Rightarrow> job_status option list" where
  "snapshots job_id [] sys = [map_of (job_statuses sys) job_id]"
| "snapshots job_id (e # es) sys =
     map_of (job_statuses sys) job_id # snapshots job_id es (step e sys)"

text \<open>Events of a background thread and cancellations: the writers of a running job.\<close>

fun runner_or_cancel :: "event \<Rightarrow> bool" where
  "runner_or_cancel (RunnerStep n t) = True"
| "runner_or_cancel (Cancel job_id) = True"
| "runner_or_cancel e = False"

text \<open>Events of one background thread, given by its position, and cancellations.\<close>

fun own_event :: "nat \<Rightarrow> event \<Rightarrow> bool" where
  "own_event n (RunnerStep m t) = (m = n)"
| "own_event n (Cancel job_id) = True"
| "own_event n e = False"

text \<open>The three fields of a record that a terminal state is said to freeze.\<close>

definition observed :: "job_status \<Rightarrow> stage_name \<times> int \<times> int" where
  "observed status = (stage status, progress status, estimatedTimeRemaining status)"

subsection \<open>Blocks in two steps\<close>

text \<open>
  The source takes no lock. Between the test of a block of a runner,
  \<^verbatim>\<open>if not status or status.get('stage') == 'failed'\<close>, and its
  \<^verbatim>\<open>status.update\<close> another thread can run; so it can between the test of
  \<^verbatim>\<open>cancel_job\<close>, \<^verbatim>\<open>status.get('stage') in ['completed', 'failed']\<close>, and
  each of its three item assignments. The executions of this section interleave at these
  points: a block of a runner is a test followed, if the test lets it through, by a write,
  and a cancel call is a test followed by three assignments.

  The events of these executions are steps of threads and of cancel calls. No record is
  created or deleted in them, so a job id names one dictionary throughout, and a write
  through the reference read at the test is a write to the record in the table.
\<close>

datatype phase = Testing | Writing

definition job_of :: "runner \<Rightarrow> string" where
  "job_of r = (case r of GenRunner g \<Rightarrow> g_job_id g | RefRunner f \<Rightarrow> f_job_id f)"

text \<open>The thread stands before a block that tests the record and writes it.\<close>

definition guarded :: "runner \<Rightarrow> bool" where
  "guarded r =
     (case r of
        GenRunner g \<Rightarrow>
          (case g_pc g of
             AtStart \<Rightarrow> False
           | AtStage i \<Rightarrow> i < length gen_stages
           | AtTick i j \<Rightarrow> i < length gen_stages \<and> int j < updates (gen_stages ! i)
           | AtFinal \<Rightarrow> True
           | Finished \<Rightarrow> False)
      | RefRunner f \<Rightarrow>
          (case f_pc f of
             AtStart \<Rightarrow> False
           | AtStage k \<Rightarrow> k < length ref_stages
           | AtTick i j \<Rightarrow> False
           | AtFinal \<Rightarrow> True
           | Finished \<Rightarrow> False))"

text \<open>
  The test of every block of a runner, negated:
  \<^verbatim>\<open>not (not status or status.get('stage') == 'failed')\<close>.
\<close>

definition passes :: "job_table \<Rightarrow> string \<Rightarrow> bool" where
  "passes tbl job_id =
     (case map_of tbl job_id of None \<Rightarrow> False | Some status \<Rightarrow> stage status \<noteq> Failed)"

text \<open>
  The part of a block of \<^verbatim>\<open>process_document_generation\<close> after its test: the
  \<^verbatim>\<open>update\<close> of the record as it is when the write happens, with the clock read then.
\<close>

definition gen_write :: "rat \<Rightarrow> job_table \<Rightarrow> gen_runner \<Rightarrow> job_table \<times> gen_runner" where
  "gen_write t tbl g =
     (case map_of tbl (g_job_id g) of
        None \<Rightarrow> (tbl, g)
      | Some status \<Rightarrow>
          (case g_pc g of
             AtStart \<Rightarrow> (tbl, g)
           | AtStage i \<Rightarrow>
               if i < length gen_stages then
                 let stage_info = gen_stages ! i;
                     elapsed_time = elapsed t (g_start_time g)
                 in (AList.update (g_job_id g)
                       (gen_stage_write stage_info (g_completed_steps g)
                          (remaining_time elapsed_time) status) tbl,
                     g\<lparr>g_completed_steps := g_completed_steps g + 1,
                       g_pc := (if 0 < updates stage_info then AtTick i 0
                                else gen_next_stage i)\<rparr>)
               else (tbl, g)
           | AtTick i j \<Rightarrow>
               if i < length gen_stages \<and> int j < updates (gen_stages ! i) then
                 let new_elapsed_time = elapsed t (g_start_time g)
                 in (AList.update (g_job_id g)
                       (gen_tick_write i j (remaining_time new_elapsed_time) status) tbl,
                     g\<lparr>g_pc := (if int (j + 1) < updates (gen_stages ! i)
                                then AtTick i (j + 1) else gen_next_stage i)\<rparr>)
               else (tbl, g)
           | AtFinal \<Rightarrow>
               (AList.update (g_job_id g)
                  (gen_final_write (g_job_id g) (g_prompt g) status) tbl,
                g\<lparr>g_pc := Finished\<rparr>)
           | Finished \<Rightarrow> (tbl, g)))"

text \<open>The same for \<^verbatim>\<open>process_refinement\<close>.\<close>

definition ref_write :: "rat \<Rightarrow> job_table \<Rightarrow> ref_runner \<Rightarrow> job_table \<times> ref_runner" where
  "ref_write t tbl f =
     (case map_of tbl (f_job_id f) of
        None \<Rightarrow> (tbl, f)
      | Some status \<Rightarrow>
          (case f_pc f of
             AtStart \<Rightarrow> (tbl, f)
           | AtStage k \<Rightarrow>
               if k < length ref_stages then
                 (AList.update (f_job_id f)
                    (ref_stage_write (ref_stages ! k)
                       (ref_remaining_time t (f_start_time f)) status) tbl,
                  f\<lparr>f_pc := (if k + 1 < length ref_stages then AtStage (k + 1)
                             else AtFinal)\<rparr>)
               else (tbl, f)
           | AtTick i j \<Rightarrow> (tbl, f)
           | AtFinal \<Rightarrow>
               (AList.update (f_job_id f)
                  (ref_final_write (f_full_doc_html f) status) tbl,
                f\<lparr>f_pc := Finished\<rparr>)
           | Finished \<Rightarrow> (tbl, f)))"

definition runner_write :: "rat \<Rightarrow> job_table \<Rightarrow> runner \<Rightarrow> job_table \<times> runner" where
  "runner_write t tbl r =
     (case r of
        GenRunner g \<Rightarrow> (case gen_write t tbl g of (tbl', g') \<Rightarrow> (tbl', GenRunner g'))
      | RefRunner f \<Rightarrow> (case ref_write t tbl f of (tbl', f') \<Rightarrow> (tbl', RefRunner f')))"

text \<open>
  The test of \<^verbatim>\<open>cancel_job\<close>, and its assignments
  \<^verbatim>\<open>status['stage'] = 'failed'\<close>, \<^verbatim>\<open>status['message'] = 'Job cancelled by user'\<close>
  and \<^verbatim>\<open>status['estimatedTimeRemaining'] = 0\<close>, numbered from 0.
\<close>

definition cancel_passes :: "job_table \<Rightarrow> string \<Rightarrow> bool" where
  "cancel_passes tbl job_id =
     (case map_of tbl job_id of
        None \<Rightarrow> False
      | Some status \<Rightarrow> \<not> (stage status = Completed \<or> stage status = Failed))"

definition cancel_assign :: "nat \<Rightarrow> job_status \<Rightarrow> job_status" where
  "cancel_assign c status =
     (if c = 0 then status\<lparr>stage := Failed\<rparr>
      else if c = 1 then status\<lparr>message := ''Job cancelled by user''\<rparr>
      else if c = 2 then status\<lparr>estimatedTimeRemaining := 0\<rparr>
      else status)"

definition cancel_write :: "string \<Rightarrow> nat \<Rightarrow> job_table \<Rightarrow> job_table" where
  "cancel_write job_id c tbl =
     (case map_of tbl job_id of
        None \<Rightarrow> tbl
      | Some status \<Rightarrow> AList.update job_id (cancel_assign c status) tbl)"

text \<open>
  The state of an interleaved execution: the table, every thread with its phase, and every
  cancel call that got past its test, with its job id and the number of assignments it
  has made.
\<close>

record fine_system =
  f_table :: job_table
  f_threads :: "(runner \<times> phase) list"
  f_cancels :: "(string \<times> nat) list"

text \<open>
  A step of the thread at a position, with the clock reading it takes; the arrival and
  the test of a cancel call; the next assignment of the cancel call at a position.
\<close>

datatype fine_event = ThreadStep nat rat | CancelTest string | CancelWrite nat

text \<open>
  A thread that tests: before a block that writes, with a record that is present and not
  failed, it goes on to the write; otherwise the block changes only the thread (its
  \<^verbatim>\<open>break\<close>, or the start or the end of the thread), as \<^const>\<open>runner_step\<close> has it.
  A thread that writes does so whatever the record has become since its test.
\<close>

fun fine_step :: "fine_event \<Rightarrow> fine_system \<Rightarrow> fine_system" where
  "fine_step (ThreadStep n t) fs =
     (if n < length (f_threads fs) then
        (case f_threads fs ! n of
           (r, Testing) \<Rightarrow>
             if guarded r \<and> passes (f_table fs) (job_of r)
             then fs\<lparr>f_threads := (f_threads fs)[n := (r, Writing)]\<rparr>
             else
               (case runner_step t (f_table fs) r of
                  (tbl', r') \<Rightarrow>
                    fs\<lparr>f_table := tbl', f_threads := (f_threads fs)[n := (r', Testing)]\<rparr>)
         | (r, Writing) \<Rightarrow>
             (case runner_write t (f_table fs) r of
                (tbl', r') \<Rightarrow>
                  fs\<lparr>f_table := tbl', f_threads := (f_threads fs)[n := (r', Testing)]\<rparr>))
      else fs)"
| "fine_step (CancelTest job_id) fs =
     (if cancel_passes (f_table fs) job_id
      then fs\<lparr>f_cancels := f_cancels fs @ [(job_id, 0)]\<rparr> else fs)"
| "fine_step (CancelWrite n) fs =
     (if n < length (f_cancels fs) then
        (case f_cancels fs ! n of
           (job_id, c) \<Rightarrow>
             if c < 3
             then fs\<lparr>f_table := cancel_write job_id c (f_table fs),
                    f_cancels := (f_cancels fs)[n := (job_id, c + 1)]\<rparr>
             else fs)
      else fs)"

fun fine_exec :: "fine_event list \<Rightarrow> fine_system \<Rightarrow> fine_system" where
  "fine_exec [] fs = fs"
| "fine_exec (e # es) fs = fine_exec es (fine_step e fs)"

fun fine_snapshots :: "string \<Rightarrow> fine_event list \<Rightarrow> fine_system \<Rightarrow> job_status option list" where
  "fine_snapshots job_id [] fs = [map_of (f_table fs) job_id]"
| "fine_snapshots job_id (e # es) fs =
     map_of (f_table fs) job_id # fine_snapshots job_id es (fine_step e fs)"

text \<open>A state between requests: every thread before a test, no cancel call under way.\<close>

definition fine :: "system \<Rightarrow> fine_system" where
  "fine sys =
     \<lparr>f_table = job_statuses sys, f_threads = map (\<lambda>r. (r, Testing)) (threads sys),
      f_cancels = []\<rparr>"

text \<open>
  Nothing is under way for a job: none of its threads is between a test and a write, and
  every cancel call for it has made its three assignments.
\<close>

definition quiet :: "string \<Rightarrow> fine_system \<Rightarrow> bool" where
  "quiet job_id fs =
     (list_all (\<lambda>th. job_of (fst th) = job_id \<longrightarrow> snd th = Testing) (f_threads fs) \<and>
      list_all (\<lambda>c. fst c = job_id \<longrightarrow> 3 \<le> snd c) (f_cancels fs))"

text \<open>Steps of one thread, given by its position, and of cancel calls.\<close>

fun own_fine_event :: "nat \<Rightarrow> fine_event \<Rightarrow> bool" where
  "own_fine_event n (ThreadStep m t) = (m = n)"
| "own_fine_event n (CancelTest job_id) = True"
| "own_fine_event n (CancelWrite m) = True"

text \<open>A request that creates a record and starts a thread, and the job id it uses.\<close>

fun creation :: "event \<Rightarrow> bool" where
  "creation (Generate t_id t_start rnd prompt) = (prompt \<noteq> None \<and> prompt \<noteq> Some [])"
| "creation (Refine t_id t_start rnd data) = True"
| "creation e = False"

fun created_id :: "event \<Rightarrow> string" where
  "created_id (Generate t_id t_start rnd prompt) = new_job_id t_id rnd"
| "created_id (Refine t_id t_start rnd data) = py_or (rq_jobId data) (new_job_id t_id rnd)"
| "created_id e = []"

definition finished :: "runner \<Rightarrow> bool" where
  "finished r =
     (case r of GenRunner g \<Rightarrow> g_pc g = Finished | RefRunner f \<Rightarrow> f_pc f = Finished)"

text \<open>
  The thread at position \<open>n\<close> is the runner of the job, and the record of the job is
  completed only once that thread has ended.
\<close>

definition own_inv :: "nat \<Rightarrow> string \<Rightarrow> fine_system \<Rightarrow> bool" where
  "own_inv n job_id fs =
     (n < length (f_threads fs) \<and> job_of (fst (f_threads fs ! n)) = job_id \<and>
      (case map_of (f_table fs) job_id of
         None \<Rightarrow> True
       | Some s \<Rightarrow> stage s = Completed \<longrightarrow> finished (fst (f_threads fs ! n))))"

subsection \<open>Bounds on the progress of a running job\<close>





text \<open>The records a pass of the sweeper keeps: those it does not find older than two hours.\<close>

definition kept :: "rat \<Rightarrow> string \<times> job_status \<Rightarrow> bool" where
  "kept t entry =
     (case startTime (snd entry) of
        None \<Rightarrow> True
      | Some (IntVal n) \<Rightarrow> \<not> fsub (fmul t (py_float 1000)) (py_float n) > 7200000
      | Some (StrVal v) \<Rightarrow> True)"

definition numeric_or_absent :: "string \<times> job_status \<Rightarrow> bool" where
  "numeric_or_absent entry =
     (case startTime (snd entry) of
        None \<Rightarrow> True
      | Some (IntVal n) \<Rightarrow> True
      | Some (StrVal v) \<Rightarrow> False)"

text \<open>The clock readings at which the sweeper wakes up, given the lags of its rounds.\<close>

fun wake_ups :: "rat \<Rightarrow> nat list \<Rightarrow> rat list" where
  "wake_ups c [] = []"
| "wake_ups c (lag # lags) = sleep_until c lag # wake_ups (sleep_until c lag) lags"

text \<open>Clock readings that lie at least 300 seconds apart, the first 300 seconds after \<open>c\<close>.\<close>

fun spaced :: "rat \<Rightarrow> rat list \<Rightarrow> bool" where
  "spaced c [] = True"
| "spaced c (t # ts) = (c + 300 \<le> t \<and> spaced t ts)"

subsection \<open>Example executions\<close>

text \<open>A refinement request that names the job \<open>job_id\<close>.\<close>

definition refine_of :: "string \<Rightarrow> refine_request" where
  "refine_of job_id =
     \<lparr>rq_jobId = Some job_id, rq_prompt = Some ''Make it shorter'',
      rq_selectionHtml = None, rq_fullDocHtml = None\<rparr>"

text \<open>
  A refinement of job \<open>j\<close> requested at second 100 and run to its end: the thread starts,
  enters its three stages at seconds 100, 103 and 110 and completes at second 112.
\<close>

definition completed_refinement :: "event list" where
  "completed_refinement =
     [Refine 100 100 ''aaaaaaaaa'' (refine_of ''j''),
      RunnerStep 0 100, RunnerStep 0 100, RunnerStep 0 103, RunnerStep 0 110,
      RunnerStep 0 112]"

text \<open>The same refinement, cancelled during its first stage.\<close>

definition cancelled_refinement :: "event list" where
  "cancelled_refinement =
     [Refine 100 100 ''aaaaaaaaa'' (refine_of ''j''),
      RunnerStep 0 100, RunnerStep 0 100, Cancel ''j'']"


text \<open>
  Two refinements of job \<open>j\<close> that overlap: the second request arrives at second 111,
  while the first thread sleeps in its last stage; the first thread completes the job at
  second 112, the second thread enters its second stage at second 114.
\<close>

definition overlapping_refinements :: "event list" where
  "overlapping_refinements =
     [Refine 100 100 ''aaaaaaaaa'' (refine_of ''j''),
      RunnerStep 0 100, RunnerStep 0 100, RunnerStep 0 103, RunnerStep 0 110,
      Refine 111 111 ''bbbbbbbbb'' (refine_of ''j''),
      RunnerStep 1 111, RunnerStep 1 111,
      RunnerStep 0 112,
      RunnerStep 1 114]"

text \<open>A generation requested at second 1, and a refinement of that job at second 2.\<close>

definition refined_generation :: "event list" where
  "refined_generation =
     [Generate 1 1 ''abcdefghi'' (Some ''Climate report''),
      Refine 2 2 ''bbbbbbbbb'' (refine_of ''job_1000_abcdefghi'')]"


text \<open>A table of two records, created at second 0 and at second 1000.\<close>

definition two_jobs_table :: job_table where
  "two_jobs_table =
     [(''a'', initial_generation_status ''a'' 0), (''b'', initial_refinement_status ''b'' 1000)]"

text \<open>A generation thread of job \<open>j\<close>, started at second 100, before its fifth tick of the
  first stage; and the record of the job at that point.\<close>

definition ticking_runner :: gen_runner where
  "ticking_runner =
     \<lparr>g_job_id = ''j'', g_prompt = ''Climate report'', g_start_time = 100000,
      g_completed_steps = 2, g_pc = AtTick 0 4\<rparr>"

definition ticking_table :: job_table where
  "ticking_table =
     [(''j'', (initial_generation_status ''j'' 100)\<lparr>stage := Analyzing, progress := 10\<rparr>)]"

text \<open>A table whose only record has no \<^verbatim>\<open>startTime\<close> key.\<close>

definition table_without_start_time :: job_table where
  "table_without_start_time = [(''j'', (initial_generation_status ''j'' 1)\<lparr>startTime := None\<rparr>)]"

text \<open>
  A table of two records: the first created at second 0, the second with a text in place
  of its \<^verbatim>\<open>startTime\<close>.
\<close>

definition table_with_text_start_time :: job_table where
  "table_with_text_start_time =
     [(''a'', initial_generation_status ''a'' 0),
      (''j'', (initial_generation_status ''j'' 1)\<lparr>startTime := Some (StrVal ''today'')\<rparr>)]"

text \<open>
  The refinement of job \<open>j\<close> requested at second 100, and three interleaved executions
  that follow the request. In the first the thread runs alone to its end: it starts, and
  tests and writes at seconds 100, 103, 110 and 112.
\<close>

definition refinement_request :: event where
  "refinement_request = Refine 100 100 ''aaaaaaaaa'' (refine_of ''j'')"

definition refinement_steps :: "fine_event list" where
  "refinement_steps =
     [ThreadStep 0 100, ThreadStep 0 100, ThreadStep 0 100, ThreadStep 0 103, ThreadStep 0 103,
      ThreadStep 0 110, ThreadStep 0 110, ThreadStep 0 112, ThreadStep 0 112]"

text \<open>
  In the second the thread has made the test of its second stage when a cancel call
  arrives, tests and makes its three assignments; then the thread writes.
\<close>

definition write_after_cancel :: "fine_event list" where
  "write_after_cancel =
     [ThreadStep 0 100, ThreadStep 0 100, ThreadStep 0 100, ThreadStep 0 103,
      CancelTest ''j'', CancelWrite 0, CancelWrite 0, CancelWrite 0,
      ThreadStep 0 103]"

text \<open>
  In the third a cancel call makes its test during the last stage; the thread then makes
  its final test and write, and after them the cancel call makes its assignments.
\<close>

definition cancel_after_completion :: "fine_event list" where
  "cancel_after_completion =
     [ThreadStep 0 100, ThreadStep 0 100, ThreadStep 0 100, ThreadStep 0 103, ThreadStep 0 103,
      ThreadStep 0 110, ThreadStep 0 110,
      CancelTest ''j'',
      ThreadStep 0 112, ThreadStep 0 112,
      CancelWrite 0, CancelWrite 0, CancelWrite 0]"

section \<open>Properties of the embedding\<close>

subsection \<open>Rounding is monotone and exact on small integers\<close>

lemma round_even_bounds: "\<lfloor>x\<rfloor> \<le> round_even x \<and> round_even x \<le> \<lfloor>x\<rfloor> + 1"
  by (simp add: round_even_def Let_def)

lemma round_even_of_int: "round_even (of_int n) = n"
  by (simp add: round_even_def Let_def)

lemma round_even_mono:
  assumes "x \<le> y"
  shows "round_even x \<le> round_even y"
proof (cases "\<lfloor>x\<rfloor> < \<lfloor>y\<rfloor>")
  case True
  have "round_even x \<le> \<lfloor>x\<rfloor> + 1" using round_even_bounds [of x] by simp
  also have "\<dots> \<le> \<lfloor>y\<rfloor>" using True by simp
  also have "\<dots> \<le> round_even y" using round_even_bounds [of y] by simp
  finally show ?thesis .
next
  case False
  with assms have eq: "\<lfloor>x\<rfloor> = \<lfloor>y\<rfloor>" using floor_mono [of x y] by simp
  with assms have "x - of_int \<lfloor>y\<rfloor> \<le> y - of_int \<lfloor>y\<rfloor>" by simp
  with eq show ?thesis by (auto simp: round_even_def Let_def)
qed

lemma expo_bounds:
  assumes "0 < x"
  shows "2 powi expo x \<le> x \<and> x < 2 powi (expo x + 1)"
proof (cases "1 \<le> x")
  case True
  define m where "m = \<lfloor>x\<rfloor>"
  from True have m: "0 < m" by (simp add: m_def)
  then have b: "1 \<le> bitlen m" by (simp add: bitlen_alt_def)
  from bitlen_bounds [OF m] have lo: "2 ^ nat (bitlen m - 1) \<le> m" and hi: "m < 2 ^ nat (bitlen m)"
    by simp_all
  have e: "expo x = bitlen m - 1" using True by (simp add: expo_def m_def)
  have "(2::rat) powi (bitlen m - 1) = 2 ^ nat (bitlen m - 1)"
    using b by (simp add: power_int_def)
  also have "\<dots> = of_int (2 ^ nat (bitlen m - 1))" by simp
  also have "\<dots> \<le> of_int m" using lo by (simp only: of_int_le_iff)
  also have "\<dots> \<le> x" by (simp add: m_def)
  finally have 1: "2 powi expo x \<le> x" by (simp add: e)
  have "m + 1 \<le> 2 ^ nat (bitlen m)" using hi by simp
  then have "(of_int (m + 1) :: rat) \<le> of_int (2 ^ nat (bitlen m))" by (simp only: of_int_le_iff)
  moreover have "x < of_int (m + 1)" using floor_correct [of x] by (simp add: m_def)
  ultimately have "x < of_int (2 ^ nat (bitlen m))" by simp
  also have "\<dots> = 2 powi (bitlen m)" using b by (simp add: power_int_def)
  finally have 2: "x < 2 powi (expo x + 1)" by (simp add: e)
  from 1 2 show ?thesis ..
next
  case False
  with assms have x1: "x < 1" by simp
  define m where "m = \<lceil>1 / x\<rceil> - 1"
  from x1 assms have "1 < 1 / x" by simp
  then have "1 < \<lceil>1 / x\<rceil>" by (simp add: less_ceiling_iff)
  then have m: "0 < m" by (simp add: m_def)
  then have b: "1 \<le> bitlen m" by (simp add: bitlen_alt_def)
  from bitlen_bounds [OF m] have lo: "2 ^ nat (bitlen m - 1) \<le> m" and hi: "m < 2 ^ nat (bitlen m)"
    by simp_all
  have e: "expo x = - bitlen m" using False by (simp add: expo_def m_def)
  have "1 / x \<le> of_int (m + 1)" by (simp add: m_def)
  also have "m + 1 \<le> 2 ^ nat (bitlen m)" using hi by simp
  then have "(of_int (m + 1) :: rat) \<le> of_int (2 ^ nat (bitlen m))" by (simp only: of_int_le_iff)
  finally have "1 / x \<le> 2 ^ nat (bitlen m)" by simp
  with assms have "1 / 2 ^ nat (bitlen m) \<le> x"
    by (simp add: field_simps)
  moreover have "(2::rat) powi (- bitlen m) = 1 / 2 ^ nat (bitlen m)"
    using b by (simp add: power_int_def field_simps)
  ultimately have 1: "2 powi expo x \<le> x" by (simp add: e)
  have "(of_int (2 ^ nat (bitlen m - 1)) :: rat) \<le> of_int m" using lo by (simp only: of_int_le_iff)
  also have "(of_int m :: rat) < 1 / x" by (simp add: m_def) linarith
  finally have "2 ^ nat (bitlen m - 1) < 1 / x" by simp
  with assms have "x < 1 / 2 ^ nat (bitlen m - 1)"
    by (simp add: field_simps)
  moreover have "(2::rat) powi (- bitlen m + 1) = 1 / 2 ^ nat (bitlen m - 1)"
    using b by (auto simp: power_int_def field_simps nat_diff_distrib)
  ultimately have 2: "x < 2 powi (expo x + 1)" by (simp add: e)
  from 1 2 show ?thesis ..
qed

lemma fl_pos_bounds:
  assumes "0 < x"
  shows "2 powi expo x \<le> fl_pos x \<and> fl_pos x \<le> 2 powi (expo x + 1)"
proof -
  define u :: rat where "u = 2 powi (expo x - 52)"
  have u: "0 < u" by (simp add: u_def)
  have lo: "2 powi expo x = of_int (2 ^ 52) * u"
    by (simp add: u_def power_int_diff)
  have hi: "2 powi (expo x + 1) = of_int (2 ^ 53) * u"
    by (simp add: u_def power_int_diff power_int_add)
  from expo_bounds [OF assms] have "of_int (2 ^ 52) * u \<le> x" and "x \<le> of_int (2 ^ 53) * u"
    by (simp_all add: lo hi)
  with u have "of_int (2 ^ 52) \<le> x / u" and "x / u \<le> of_int (2 ^ 53)"
    by (simp_all add: field_simps)
  then have "round_even (of_int (2 ^ 52)) \<le> round_even (x / u)"
    and "round_even (x / u) \<le> round_even (of_int (2 ^ 53))"
    by (simp_all only: round_even_mono)
  then have "2 ^ 52 \<le> round_even (x / u)" and "round_even (x / u) \<le> 2 ^ 53"
    by (simp_all only: round_even_of_int)
  then have "(of_int (2 ^ 52) :: rat) \<le> of_int (round_even (x / u))"
    and "(of_int (round_even (x / u)) :: rat) \<le> of_int (2 ^ 53)"
    by (simp_all only: of_int_le_iff)
  with u have "of_int (2 ^ 52) * u \<le> of_int (round_even (x / u)) * u"
    and "of_int (round_even (x / u)) * u \<le> of_int (2 ^ 53) * u"
    by (simp_all only: mult_le_cancel_right_pos)
  then show ?thesis by (simp only: lo hi fl_pos_def u_def)
qed

lemma expo_mono:
  assumes "0 < x" and "x \<le> y"
  shows "expo x \<le> expo y"
proof (rule ccontr)
  assume "\<not> expo x \<le> expo y"
  then have "expo y + 1 \<le> expo x" by simp
  then have "(2::rat) powi (expo y + 1) \<le> 2 powi expo x"
    by (intro power_int_increasing) simp_all
  moreover from assms have "0 < y" by simp
  then have "y < 2 powi (expo y + 1)" using expo_bounds [of y] by simp
  moreover have "2 powi expo x \<le> x" using expo_bounds [OF assms(1)] by simp
  ultimately show False using assms(2) by simp
qed

lemma fl_pos_mono:
  assumes "0 < x" and "x \<le> y"
  shows "fl_pos x \<le> fl_pos y"
proof (cases "expo x = expo y")
  case True
  have u: "(0::rat) < 2 powi (expo y - 52)" by simp
  with assms have "x / 2 powi (expo y - 52) \<le> y / 2 powi (expo y - 52)"
    by (intro divide_right_mono) simp_all
  then have "round_even (x / 2 powi (expo y - 52)) \<le> round_even (y / 2 powi (expo y - 52))"
    by (rule round_even_mono)
  then have "(of_int (round_even (x / 2 powi (expo y - 52))) :: rat) \<le>
      of_int (round_even (y / 2 powi (expo y - 52)))"
    by (simp only: of_int_le_iff)
  with u show ?thesis
    by (simp only: fl_pos_def True mult_le_cancel_right_pos)
next
  case False
  with expo_mono [OF assms] have "expo x + 1 \<le> expo y" by simp
  then have "(2::rat) powi (expo x + 1) \<le> 2 powi expo y"
    by (intro power_int_increasing) simp_all
  moreover have "fl_pos x \<le> 2 powi (expo x + 1)" using fl_pos_bounds [OF assms(1)] by simp
  moreover from assms have "0 < y" by simp
  then have "2 powi expo y \<le> fl_pos y" using fl_pos_bounds [of y] by simp
  ultimately show ?thesis by simp
qed

lemma fl_pos_positive: "0 < x \<Longrightarrow> 0 < fl_pos x"
proof -
  assume "0 < x"
  then have "2 powi expo x \<le> fl_pos x" using fl_pos_bounds [of x] by simp
  moreover have "(0::rat) < 2 powi expo x" by simp
  ultimately show ?thesis by (rule less_le_trans [rotated])
qed

lemma fl_mono:
  assumes "x \<le> y"
  shows "fl x \<le> fl y"
proof -
  consider "0 < x" | "x = 0" | "x < 0" "0 < y" | "x < 0" "y = 0" | "x < 0" "y < 0"
    by linarith
  then show ?thesis
  proof cases
    case 1
    with assms have "0 < y" by simp
    with 1 assms show ?thesis by (simp add: fl_def fl_pos_mono)
  next
    case 2
    with assms have "y = 0 \<or> 0 < y" by auto
    with 2 show ?thesis using fl_pos_positive [of y] by (auto simp: fl_def)
  next
    case 3
    then have "0 < fl_pos (- x)" and "0 < fl_pos y" by (simp_all add: fl_pos_positive)
    with 3 show ?thesis by (simp add: fl_def)
  next
    case 4
    then have "0 < fl_pos (- x)" by (simp add: fl_pos_positive)
    with 4 show ?thesis by (simp add: fl_def)
  next
    case 5
    with assms have "fl_pos (- y) \<le> fl_pos (- x)" by (intro fl_pos_mono) simp_all
    with 5 show ?thesis by (simp add: fl_def)
  qed
qed

lemma fl_nonneg: "0 \<le> x \<Longrightarrow> 0 \<le> fl x"
  using fl_mono [of 0 x] by (simp add: fl_def)

lemma fl_of_int_pos:
  assumes "0 < n" and "n < 2 ^ 53"
  shows "fl (of_int n) = of_int n"
proof -
  have b: "1 \<le> bitlen n" using assms by (simp add: bitlen_alt_def)
  have e: "expo (of_int n) = bitlen n - 1" using assms by (simp add: expo_def)
  from bitlen_bounds [OF assms(1)] have "2 ^ nat (bitlen n - 1) \<le> n" by simp
  with assms have "(2::int) ^ nat (bitlen n - 1) < 2 ^ 53" by simp
  then have "nat (bitlen n - 1) < 53" by (simp only: power_strict_increasing_iff)
  then have k: "bitlen n - 1 \<le> 52" by simp
  define k where "k = nat (52 - (bitlen n - 1))"
  have u: "(2::rat) powi (bitlen n - 1 - 52) = 1 / 2 ^ k"
    using k by (cases "bitlen n - 1 = 52") (auto simp: power_int_def k_def field_simps)
  have "of_int n / (1 / 2 ^ k) = (of_int (n * 2 ^ k) :: rat)" by simp
  then have "round_even (of_int n / (1 / 2 ^ k)) = n * 2 ^ k"
    by (simp only: round_even_of_int)
  then have "fl_pos (of_int n) = of_int (n * 2 ^ k) * (1 / 2 ^ k)"
    by (simp only: fl_pos_def e u)
  also have "\<dots> = of_int n" by simp
  finally show ?thesis using assms by (simp add: fl_def)
qed

lemma fl_of_int:
  assumes "\<bar>n\<bar> < 2 ^ 53"
  shows "fl (of_int n) = of_int n"
proof -
  consider "0 < n" | "n = 0" | "n < 0" by linarith
  then show ?thesis
  proof cases
    case 1
    with assms show ?thesis by (simp add: fl_of_int_pos)
  next
    case 2
    then show ?thesis by (simp add: fl_def)
  next
    case 3
    with assms have "fl (of_int (- n)) = of_int (- n)" by (intro fl_of_int_pos) simp_all
    with 3 show ?thesis by (simp add: fl_def)
  qed
qed

lemma fl_numeral: "(numeral k :: int) < 2 ^ 53 \<Longrightarrow> fl (numeral k) = numeral k"
  using fl_of_int [of "numeral k"] by simp

lemma fl_zero: "fl 0 = 0"
  by (simp add: fl_def)

lemma fl_one: "fl 1 = 1"
  using fl_of_int [of 1] by simp


lemma py_float_nonneg: "0 \<le> a \<Longrightarrow> 0 \<le> py_float a"
  by (simp add: py_float_def fl_nonneg)

lemma py_truediv_nonneg: "0 \<le> a \<Longrightarrow> 0 \<le> b \<Longrightarrow> 0 \<le> py_truediv a b"
  by (simp add: py_truediv_def fl_nonneg)

subsection \<open>Truncation\<close>

lemma py_int_mono: "x \<le> y \<Longrightarrow> py_int x \<le> py_int y"
proof -
  assume xy: "x \<le> y"
  consider "0 \<le> x" | "x < 0" "0 \<le> y" | "x < 0" "y < 0" by linarith
  then show ?thesis
  proof cases
    case 1
    with xy show ?thesis by (simp add: py_int_def floor_mono)
  next
    case 2
    then have "\<lceil>x\<rceil> \<le> 0" and "0 \<le> \<lfloor>y\<rfloor>" by (simp_all add: ceiling_le_zero)
    then have "\<lceil>x\<rceil> \<le> \<lfloor>y\<rfloor>" by (rule order_trans)
    with 2 show ?thesis by (simp add: py_int_def)
  next
    case 3
    with xy show ?thesis by (simp add: py_int_def ceiling_mono)
  qed
qed

lemma py_int_of_int: "py_int (of_int a) = a"
  by (simp add: py_int_def)

lemma py_int_nonneg: "0 \<le> x \<Longrightarrow> 0 \<le> py_int x"
  by (simp add: py_int_def)

subsection \<open>The plan of the generation runner\<close>

lemma length_gen_stages: "length gen_stages = 4"
  by (simp add: gen_stages_def)

lemma stage_index_cases: "i < length gen_stages \<Longrightarrow> i = 0 \<or> i = 1 \<or> i = 2 \<or> i = 3"
  by (simp add: length_gen_stages) arith

lemma updates_nonneg:
  assumes "i < length gen_stages"
  shows "0 \<le> updates (gen_stages ! i)"
proof -
  from stage_index_cases [OF assms] have "0 \<le> si_duration (gen_stages ! i) * 1000"
    by (auto simp: gen_stages_def)
  then have "0 \<le> py_truediv (si_duration (gen_stages ! i) * 1000) speed_multiplier"
    by (intro py_truediv_nonneg) (simp_all add: speed_multiplier_def)
  moreover have "0 \<le> update_interval"
    unfolding update_interval_def by (intro py_truediv_nonneg) (simp_all add: speed_multiplier_def)
  ultimately have
    "0 \<le> fdiv (py_truediv (si_duration (gen_stages ! i) * 1000) speed_multiplier) update_interval"
    unfolding fdiv_def by (intro fl_nonneg) simp
  then show ?thesis by (simp add: updates_def py_int_nonneg)
qed

lemma progress_range_gen_stages:
  assumes "i < length gen_stages"
  shows "si_progress (gen_stages ! i) \<le> next_stage_progress i - 1"
  using stage_index_cases [OF assms]
  by (auto simp: gen_stages_def next_stage_progress_def)

lemma py_float_stage_progress:
  assumes "i < length gen_stages"
  shows "py_float (si_progress (gen_stages ! i)) = of_int (si_progress (gen_stages ! i))"
proof -
  from stage_index_cases [OF assms] have "\<bar>si_progress (gen_stages ! i)\<bar> < 2 ^ 53"
    by (auto simp: gen_stages_def)
  then show ?thesis by (simp only: py_float_def fl_of_int)
qed

lemma next_stage_progress_le: "next_stage_progress i \<le> 100"
  by (auto simp: next_stage_progress_def gen_stages_def nth_Cons')

lemma tick_progress_upper: "tick_progress i j \<le> next_stage_progress i - 1"
  by (simp add: tick_progress_def Let_def)

lemma increment_nonneg:
  assumes "i < length gen_stages"
  shows "0 \<le> py_truediv (next_stage_progress i - si_progress (gen_stages ! i))
           (updates (gen_stages ! i))"
  using progress_range_gen_stages [OF assms] updates_nonneg [OF assms]
  by (intro py_truediv_nonneg) simp_all

lemma tick_progress_lower:
  assumes "i < length gen_stages"
  shows "si_progress (gen_stages ! i) \<le> tick_progress i j"
proof -
  let ?q = "py_truediv (next_stage_progress i - si_progress (gen_stages ! i))
             (updates (gen_stages ! i))"
  let ?f = "si_progress (gen_stages ! i)"
  have "0 \<le> ?q * py_float (int j + 1)"
    using increment_nonneg [OF assms] by (intro mult_nonneg_nonneg py_float_nonneg) simp_all
  then have "0 \<le> fmul ?q (py_float (int j + 1))"
    by (simp add: fmul_def fl_nonneg)
  then have "fl (of_int ?f) \<le> fl (of_int ?f + fmul ?q (py_float (int j + 1)))"
    by (intro fl_mono) simp
  then have "of_int ?f \<le> fadd (py_float ?f) (fmul ?q (py_float (int j + 1)))"
    using py_float_stage_progress [OF assms] by (simp add: fadd_def py_float_def)
  then have "py_int (of_int ?f) \<le> py_int (fadd (py_float ?f) (fmul ?q (py_float (int j + 1))))"
    by (rule py_int_mono)
  then have "?f \<le> py_int (fadd (py_float ?f) (fmul ?q (py_float (int j + 1))))"
    by (simp only: py_int_of_int)
  with progress_range_gen_stages [OF assms] show ?thesis
    by (simp add: tick_progress_def Let_def)
qed


subsection \<open>A record marked failed is never written again\<close>

lemma gen_step_other:
  "k \<noteq> g_job_id g \<Longrightarrow> map_of (fst (gen_step t tbl g)) k = map_of tbl k"
  by (simp add: gen_step_def Let_def update_conv' split: pc.splits option.splits)

lemma ref_step_other:
  "k \<noteq> f_job_id f \<Longrightarrow> map_of (fst (ref_step t tbl f)) k = map_of tbl k"
  by (simp add: ref_step_def Let_def update_conv' split: pc.splits option.splits)

lemma gen_step_failed:
  "map_of tbl (g_job_id g) = Some s \<Longrightarrow> stage s = Failed \<Longrightarrow> fst (gen_step t tbl g) = tbl"
  by (simp add: gen_step_def Let_def split: pc.splits)

lemma ref_step_failed:
  "map_of tbl (f_job_id f) = Some s \<Longrightarrow> stage s = Failed \<Longrightarrow> fst (ref_step t tbl f) = tbl"
  by (simp add: ref_step_def Let_def split: pc.splits)

lemma runner_step_failed:
  assumes "map_of tbl k = Some s" and "stage s = Failed"
  shows "map_of (fst (runner_step t tbl r)) k = Some s"
proof (cases r)
  case (GenRunner g)
  show ?thesis
  proof (cases "k = g_job_id g")
    case True
    with assms have "fst (gen_step t tbl g) = tbl" by (simp add: gen_step_failed)
    with GenRunner assms show ?thesis by (simp add: runner_step_def split_beta)
  next
    case False
    with GenRunner assms show ?thesis by (simp add: runner_step_def split_beta gen_step_other)
  qed
next
  case (RefRunner f)
  show ?thesis
  proof (cases "k = f_job_id f")
    case True
    with assms have "fst (ref_step t tbl f) = tbl" by (simp add: ref_step_failed)
    with RefRunner assms show ?thesis by (simp add: runner_step_def split_beta)
  next
    case False
    with RefRunner assms show ?thesis by (simp add: runner_step_def split_beta ref_step_other)
  qed
qed

lemma cancel_job_failed:
  assumes "map_of (job_statuses sys) k = Some s" and "stage s = Failed"
  shows "map_of (job_statuses (snd (cancel_job j sys))) k = Some s"
  using assms by (auto simp: cancel_job_def update_conv' split: option.splits)

lemma step_failed:
  assumes "runner_or_cancel e" and "map_of (job_statuses sys) k = Some s" and "stage s = Failed"
  shows "map_of (job_statuses (step e sys)) k = Some s"
proof (cases e)
  case (RunnerStep n t)
  with assms runner_step_failed [of "job_statuses sys" k s t "threads sys ! n"]
  show ?thesis by (simp add: split_beta)
next
  case (Cancel j)
  with assms show ?thesis by (simp add: cancel_job_failed)
qed (use assms in simp_all)

lemma snapshots_failed:
  "list_all runner_or_cancel es \<Longrightarrow> map_of (job_statuses sys) k = Some s \<Longrightarrow>
   stage s = Failed \<Longrightarrow> snapshots k es sys = replicate (Suc (length es)) (Some s)"
proof (induction es arbitrary: sys)
  case Nil
  then show ?case by simp
next
  case (Cons e es)
  then have "map_of (job_statuses (step e sys)) k = Some s"
    by (simp add: step_failed)
  with Cons show ?case by simp
qed

subsection \<open>Blocks in two steps: a block is its test followed by its write\<close>

lemma runner_step_blocked:
  "\<not> (guarded r \<and> passes tbl (job_of r)) \<Longrightarrow> fst (runner_step t tbl r) = tbl"
  by (cases r)
    (auto simp: runner_step_def split_beta guarded_def passes_def job_of_def gen_step_def
      ref_step_def Let_def split: pc.splits option.splits)

lemma runner_write_is_step:
  "guarded r \<Longrightarrow> passes tbl (job_of r) \<Longrightarrow> runner_write t tbl r = runner_step t tbl r"
  by (cases r)
    (auto simp: runner_step_def runner_write_def guarded_def passes_def job_of_def
      gen_step_def gen_write_def ref_step_def ref_write_def Let_def
      split: pc.splits option.splits)

lemma runner_step_job_of: "job_of (snd (runner_step t tbl r)) = job_of r"
  by (cases r)
    (auto simp: runner_step_def split_beta job_of_def gen_step_def ref_step_def Let_def
      split: pc.splits option.splits)

lemma runner_write_job_of: "job_of (snd (runner_write t tbl r)) = job_of r"
  by (cases r)
    (auto simp: runner_write_def split_beta job_of_def gen_write_def ref_write_def Let_def
      split: pc.splits option.splits)

lemma runner_step_other_job:
  "k \<noteq> job_of r \<Longrightarrow> map_of (fst (runner_step t tbl r)) k = map_of tbl k"
  by (cases r) (simp_all add: runner_step_def split_beta job_of_def gen_step_other ref_step_other)

lemma runner_write_other_job:
  "k \<noteq> job_of r \<Longrightarrow> map_of (fst (runner_write t tbl r)) k = map_of tbl k"
  by (cases r)
    (auto simp: runner_write_def split_beta job_of_def gen_write_def ref_write_def Let_def
      update_conv' split: pc.splits option.splits)

lemma cancel_write_other: "k \<noteq> j \<Longrightarrow> map_of (cancel_write j c tbl) k = map_of tbl k"
  by (simp add: cancel_write_def update_conv' split: option.splits)

lemma cancel_assign_completed: "stage (cancel_assign c s) = Completed \<Longrightarrow> stage s = Completed"
  by (simp add: cancel_assign_def split: if_splits)

lemma quiet_thread:
  assumes "quiet k fs" and "n < length (f_threads fs)" and "job_of (fst (f_threads fs ! n)) = k"
  shows "snd (f_threads fs ! n) = Testing"
  using assms by (auto simp: quiet_def list_all_length)

lemma quiet_update:
  assumes "quiet k fs" and "n < length (f_threads fs)"
  shows "quiet k (fs\<lparr>f_table := tbl, f_threads := (f_threads fs)[n := (r, Testing)]\<rparr>)"
  using assms by (auto simp: quiet_def list_all_length nth_list_update)

lemma quiet_update_other:
  assumes "quiet k fs" and "n < length (f_threads fs)" and "job_of r \<noteq> k"
  shows "quiet k (fs\<lparr>f_threads := (f_threads fs)[n := (r, ph)]\<rparr>)"
  using assms by (auto simp: quiet_def list_all_length nth_list_update)

lemma quiet_cancel:
  assumes "quiet k fs" and "n < length (f_cancels fs)" and "fst (f_cancels fs ! n) = k"
  shows "3 \<le> snd (f_cancels fs ! n)"
  using assms by (auto simp: quiet_def list_all_length)

lemma quiet_cancel_update:
  assumes "quiet k fs" and "n < length (f_cancels fs)" and "j \<noteq> k"
  shows "quiet k (fs\<lparr>f_table := tbl, f_cancels := (f_cancels fs)[n := (j, c)]\<rparr>)"
  using assms by (auto simp: quiet_def list_all_length nth_list_update)

lemma fine_step_cancel_write:
  assumes "n < length (f_cancels fs)" and "f_cancels fs ! n = (j, c)" and "c < 3"
  shows "fine_step (CancelWrite n) fs =
     fs\<lparr>f_table := cancel_write j c (f_table fs), f_cancels := (f_cancels fs)[n := (j, c + 1)]\<rparr>"
  using assms by simp

lemma fine_step_cancel_done:
  assumes "n < length (f_cancels fs) \<longrightarrow> 3 \<le> snd (f_cancels fs ! n)"
  shows "fine_step (CancelWrite n) fs = fs"
  using assms by (auto simp: split_beta)

lemma fine_step_pass:
  assumes "n < length (f_threads fs)" and "f_threads fs ! n = (r, Testing)"
    and "guarded r" and "passes (f_table fs) (job_of r)"
  shows "fine_step (ThreadStep n t) fs = fs\<lparr>f_threads := (f_threads fs)[n := (r, Writing)]\<rparr>"
  using assms by simp

lemma fine_step_blocked:
  assumes "n < length (f_threads fs)" and "f_threads fs ! n = (r, Testing)"
    and "\<not> (guarded r \<and> passes (f_table fs) (job_of r))"
  shows "fine_step (ThreadStep n t) fs =
     fs\<lparr>f_table := fst (runner_step t (f_table fs) r),
        f_threads := (f_threads fs)[n := (snd (runner_step t (f_table fs) r), Testing)]\<rparr>"
  using assms by (auto simp: split_beta)

lemma fine_step_write:
  assumes "n < length (f_threads fs)" and "f_threads fs ! n = (r, Writing)"
  shows "fine_step (ThreadStep n t) fs =
     fs\<lparr>f_table := fst (runner_write t (f_table fs) r),
        f_threads := (f_threads fs)[n := (snd (runner_write t (f_table fs) r), Testing)]\<rparr>"
  using assms by (simp add: split_beta)

lemma fine_step_testing:
  assumes "n < length (f_threads fs)" and "f_threads fs ! n = (r, Testing)"
  shows "f_table (fine_step (ThreadStep n t) fs) = f_table fs \<and>
     (snd (f_threads (fine_step (ThreadStep n t) fs) ! n) = Writing) =
       (guarded r \<and> passes (f_table fs) (job_of r))"
proof (cases "guarded r \<and> passes (f_table fs) (job_of r)")
  case True
  with assms have st: "fine_step (ThreadStep n t) fs =
      fs\<lparr>f_threads := (f_threads fs)[n := (r, Writing)]\<rparr>"
    by (intro fine_step_pass) simp_all
  show ?thesis unfolding st using True assms by simp
next
  case False
  with assms have st: "fine_step (ThreadStep n t) fs =
      fs\<lparr>f_table := fst (runner_step t (f_table fs) r),
         f_threads := (f_threads fs)[n := (snd (runner_step t (f_table fs) r), Testing)]\<rparr>"
    by (intro fine_step_blocked) simp_all
  from False have same: "fst (runner_step t (f_table fs) r) = f_table fs"
    by (rule runner_step_blocked)
  show ?thesis unfolding st using False assms same by simp
qed


lemma fine_runner_step:
  "fine (step (RunnerStep n t) sys) =
     (if n < length (threads sys) \<and>
         snd (f_threads (fine_step (ThreadStep n t) (fine sys)) ! n) = Writing
      then fine_step (ThreadStep n t) (fine_step (ThreadStep n t) (fine sys))
      else fine_step (ThreadStep n t) (fine sys))"
proof (cases "n < length (threads sys)")
  case False
  then show ?thesis by (simp add: fine_def)
next
  case n: True
  let ?r = "threads sys ! n"
  let ?tbl = "job_statuses sys"
  from n have th: "f_threads (fine sys) ! n = (?r, Testing)" and len: "n < length (f_threads (fine sys))"
    by (simp_all add: fine_def)
  have tbl: "f_table (fine sys) = ?tbl" by (simp add: fine_def)
  show ?thesis
  proof (cases "guarded ?r \<and> passes ?tbl (job_of ?r)")
    case True
    with th len tbl have 1: "fine_step (ThreadStep n t) (fine sys) =
        (fine sys)\<lparr>f_threads := (f_threads (fine sys))[n := (?r, Writing)]\<rparr>"
      by (intro fine_step_pass) simp_all
    from True have w: "runner_write t ?tbl ?r = runner_step t ?tbl ?r"
      by (simp add: runner_write_is_step)
    from 1 n w show ?thesis
      by (simp add: fine_def split_beta map_update)
  next
    case False
    with th len tbl have 1: "fine_step (ThreadStep n t) (fine sys) =
        (fine sys)\<lparr>f_table := fst (runner_step t ?tbl ?r),
          f_threads := (f_threads (fine sys))[n := (snd (runner_step t ?tbl ?r), Testing)]\<rparr>"
      using fine_step_blocked [of n "fine sys" ?r t] by simp
    with n show ?thesis
      by (simp add: fine_def split_beta map_update)
  qed
qed

lemma fine_cancel:
  "f_table (fine_exec [CancelTest job_id, CancelWrite 0, CancelWrite 0, CancelWrite 0]
      (fine sys)) = job_statuses (step (Cancel job_id) sys) \<and>
   f_threads (fine_exec [CancelTest job_id, CancelWrite 0, CancelWrite 0, CancelWrite 0]
      (fine sys)) = f_threads (fine (step (Cancel job_id) sys)) \<and>
   quiet k (fine_exec [CancelTest job_id, CancelWrite 0, CancelWrite 0, CancelWrite 0]
      (fine sys))"
  by (auto simp: fine_def cancel_job_def cancel_passes_def cancel_write_def cancel_assign_def
      quiet_def list_all_iff update_conv' split: option.splits)

subsection \<open>Terminal records in interleaved executions\<close>

text \<open>A failed record with nothing under way: no step writes it, and nothing gets under way.\<close>

lemma fine_step_failed:
  assumes rec: "map_of (f_table fs) k = Some s" and failed: "stage s = Failed"
    and q: "quiet k fs"
  shows "map_of (f_table (fine_step e fs)) k = Some s \<and> quiet k (fine_step e fs)"
proof (cases e)
  case (ThreadStep n t)
  show ?thesis
  proof (cases "n < length (f_threads fs)")
    case False
    with ThreadStep rec q show ?thesis by simp
  next
    case n: True
    obtain r ph where th: "f_threads fs ! n = (r, ph)" by (cases "f_threads fs ! n")
    show ?thesis
    proof (cases "job_of r = k")
      case own: True
      with q n th have ph: "ph = Testing" using quiet_thread [of k fs n] by simp
      from own rec failed have np: "\<not> passes (f_table fs) (job_of r)"
        by (simp add: passes_def)
      then have same: "fst (runner_step t (f_table fs) r) = f_table fs"
        by (simp add: runner_step_blocked)
      from np n th ph have st: "fine_step (ThreadStep n t) fs =
          fs\<lparr>f_table := fst (runner_step t (f_table fs) r),
             f_threads := (f_threads fs)[n := (snd (runner_step t (f_table fs) r), Testing)]\<rparr>"
        by (intro fine_step_blocked) simp_all
      from q n have "quiet k (fs\<lparr>f_table := f_table fs,
          f_threads := (f_threads fs)[n := (snd (runner_step t (f_table fs) r), Testing)]\<rparr>)"
        by (rule quiet_update)
      with st same rec ThreadStep show ?thesis by simp
    next
      case other: False
      show ?thesis
      proof (cases ph)
        case Testing
        show ?thesis
        proof (cases "guarded r \<and> passes (f_table fs) (job_of r)")
          case True
          with n th Testing have "fine_step (ThreadStep n t) fs =
              fs\<lparr>f_threads := (f_threads fs)[n := (r, Writing)]\<rparr>"
            by (intro fine_step_pass) simp_all
          with rec q n other ThreadStep show ?thesis
            by (simp add: quiet_update_other)
        next
          case False
          with n th Testing have st: "fine_step (ThreadStep n t) fs =
              fs\<lparr>f_table := fst (runner_step t (f_table fs) r),
                 f_threads := (f_threads fs)[n := (snd (runner_step t (f_table fs) r), Testing)]\<rparr>"
            by (intro fine_step_blocked) simp_all
          from other rec have "map_of (fst (runner_step t (f_table fs) r)) k = Some s"
            by (simp add: runner_step_other_job)
          with st q n ThreadStep show ?thesis by (simp add: quiet_update)
        qed
      next
        case Writing
        with n th have st: "fine_step (ThreadStep n t) fs =
            fs\<lparr>f_table := fst (runner_write t (f_table fs) r),
               f_threads := (f_threads fs)[n := (snd (runner_write t (f_table fs) r), Testing)]\<rparr>"
          by (intro fine_step_write) simp_all
        from other rec have "map_of (fst (runner_write t (f_table fs) r)) k = Some s"
          by (simp add: runner_write_other_job)
        with st q n ThreadStep show ?thesis by (simp add: quiet_update)
      qed
    qed
  qed
next
  case (CancelTest j)
  show ?thesis
  proof (cases "j = k")
    case True
    with rec failed have "\<not> cancel_passes (f_table fs) j" by (simp add: cancel_passes_def)
    with CancelTest rec q show ?thesis by simp
  next
    case False
    with CancelTest rec q show ?thesis by (auto simp: quiet_def)
  qed
next
  case (CancelWrite n)
  show ?thesis
  proof (cases "n < length (f_cancels fs) \<and> snd (f_cancels fs ! n) < 3")
    case False
    then have "fine_step (CancelWrite n) fs = fs" by (intro fine_step_cancel_done) auto
    with CancelWrite rec q show ?thesis by simp
  next
    case True
    obtain j c where c: "f_cancels fs ! n = (j, c)" by (cases "f_cancels fs ! n")
    with True q have other: "j \<noteq> k" using quiet_cancel [of k fs n] by auto
    from True c have "fine_step (CancelWrite n) fs =
        fs\<lparr>f_table := cancel_write j c (f_table fs),
           f_cancels := (f_cancels fs)[n := (j, c + 1)]\<rparr>"
      by (intro fine_step_cancel_write) simp_all
    moreover from q True other have "quiet k (fs\<lparr>f_table := cancel_write j c (f_table fs),
        f_cancels := (f_cancels fs)[n := (j, c + 1)]\<rparr>)"
      by (intro quiet_cancel_update) simp_all
    ultimately show ?thesis using CancelWrite rec other by (simp add: cancel_write_other)
  qed
qed

lemma fine_snapshots_failed:
  "map_of (f_table fs) k = Some s \<Longrightarrow> stage s = Failed \<Longrightarrow> quiet k fs \<Longrightarrow>
   fine_snapshots k es fs = replicate (Suc (length es)) (Some s)"
proof (induction es arbitrary: fs)
  case Nil
  then show ?case by simp
next
  case (Cons e es)
  from Cons.prems fine_step_failed [of fs k s e]
  have "map_of (f_table (fine_step e fs)) k = Some s" and "quiet k (fine_step e fs)" by simp_all
  with Cons show ?case by simp
qed

lemma runner_step_finished: "finished r \<Longrightarrow> runner_step t tbl r = (tbl, r)"
  by (cases r) (simp_all add: finished_def runner_step_def gen_step_def ref_step_def)

lemma finished_not_guarded: "finished r \<Longrightarrow> \<not> guarded r"
  by (cases r) (simp_all add: finished_def guarded_def)

lemma length_ref_stages: "length ref_stages = 3"
  by (simp add: ref_stages_def)

lemma gen_stage_not_completed:
  assumes "i < length gen_stages"
  shows "si_stage (gen_stages ! i) \<noteq> Completed"
  using stage_index_cases [OF assms] by (auto simp: gen_stages_def)

lemma ref_stage_not_completed:
  assumes "k < length ref_stages"
  shows "rs_stage (ref_stages ! k) \<noteq> Completed"
proof -
  from assms have "k = 0 \<or> k = 1 \<or> k = 2" by (simp add: length_ref_stages) arith
  then show ?thesis by (auto simp: ref_stages_def)
qed

text \<open>Only the final write sets the stage completed, and it ends the thread.\<close>

lemma runner_write_completed:
  assumes inv: "\<And>s. map_of tbl (job_of r) = Some s \<Longrightarrow> stage s = Completed \<Longrightarrow> finished r"
    and new: "map_of (fst (runner_write t tbl r)) (job_of r) = Some s'"
    and c: "stage s' = Completed"
  shows "finished (snd (runner_write t tbl r))"
proof (cases r)
  case (GenRunner g)
  show ?thesis
  proof (cases "map_of tbl (g_job_id g)")
    case None
    with GenRunner new show ?thesis
      by (simp add: runner_write_def gen_write_def job_of_def)
  next
    case (Some s)
    show ?thesis
    proof (cases "stage s = Completed")
      case True
      with inv Some GenRunner have "g_pc g = Finished" by (simp add: job_of_def finished_def)
      with GenRunner Some show ?thesis
        by (simp add: runner_write_def gen_write_def finished_def)
    next
      case False
      with GenRunner Some new c show ?thesis
        by (auto simp: runner_write_def gen_write_def job_of_def finished_def Let_def
            update_conv' gen_stage_write_def gen_tick_write_def gen_stage_not_completed
            split: pc.splits if_splits)
    qed
  qed
next
  case (RefRunner f)
  show ?thesis
  proof (cases "map_of tbl (f_job_id f)")
    case None
    with RefRunner new show ?thesis
      by (simp add: runner_write_def ref_write_def job_of_def)
  next
    case (Some s)
    show ?thesis
    proof (cases "stage s = Completed")
      case True
      with inv Some RefRunner have "f_pc f = Finished" by (simp add: job_of_def finished_def)
      with RefRunner Some show ?thesis
        by (simp add: runner_write_def ref_write_def finished_def)
    next
      case False
      with RefRunner Some new c show ?thesis
        by (auto simp: runner_write_def ref_write_def job_of_def finished_def
            update_conv' ref_stage_write_def ref_stage_not_completed
            split: pc.splits if_splits)
    qed
  qed
qed

lemma own_inv_step:
  assumes own: "own_fine_event n e" and inv: "own_inv n k fs"
  shows "own_inv n k (fine_step e fs)"
proof (cases e)
  case (ThreadStep m t)
  with own have m: "m = n" by simp
  from inv have n: "n < length (f_threads fs)" by (simp add: own_inv_def)
  obtain r ph where th: "f_threads fs ! n = (r, ph)" by (cases "f_threads fs ! n")
  with inv have job: "job_of r = k" by (simp add: own_inv_def)
  from inv th have fin: "\<And>s. map_of (f_table fs) k = Some s \<Longrightarrow> stage s = Completed \<Longrightarrow> finished r"
    by (simp add: own_inv_def)
  show ?thesis
  proof (cases ph)
    case Testing
    show ?thesis
    proof (cases "guarded r \<and> passes (f_table fs) (job_of r)")
      case True
      with n th Testing have "fine_step (ThreadStep n t) fs =
          fs\<lparr>f_threads := (f_threads fs)[n := (r, Writing)]\<rparr>"
        by (intro fine_step_pass) simp_all
      with inv n th ThreadStep m show ?thesis
        by (auto simp: own_inv_def split: option.splits)
    next
      case False
      with n th Testing have st: "fine_step (ThreadStep n t) fs =
          fs\<lparr>f_table := fst (runner_step t (f_table fs) r),
             f_threads := (f_threads fs)[n := (snd (runner_step t (f_table fs) r), Testing)]\<rparr>"
        by (intro fine_step_blocked) simp_all
      from False have same: "fst (runner_step t (f_table fs) r) = f_table fs"
        by (simp add: runner_step_blocked)
      have "\<And>s. map_of (f_table fs) k = Some s \<Longrightarrow> stage s = Completed \<Longrightarrow>
          finished (snd (runner_step t (f_table fs) r))"
        using fin by (simp add: runner_step_finished)
      with st same n job ThreadStep m show ?thesis
        by (auto simp: own_inv_def runner_step_job_of split: option.splits)
    qed
  next
    case Writing
    with n th have st: "fine_step (ThreadStep n t) fs =
        fs\<lparr>f_table := fst (runner_write t (f_table fs) r),
           f_threads := (f_threads fs)[n := (snd (runner_write t (f_table fs) r), Testing)]\<rparr>"
      by (intro fine_step_write) simp_all
    have "\<And>s'. map_of (fst (runner_write t (f_table fs) r)) k = Some s' \<Longrightarrow>
        stage s' = Completed \<Longrightarrow> finished (snd (runner_write t (f_table fs) r))"
      using fin job runner_write_completed [of "f_table fs" r t] by blast
    with st n job ThreadStep m show ?thesis
      by (auto simp: own_inv_def runner_write_job_of split: option.splits)
  qed
next
  case (CancelTest j)
  with inv show ?thesis by (auto simp: own_inv_def split: option.splits)
next
  case (CancelWrite m)
  show ?thesis
  proof (cases "m < length (f_cancels fs) \<and> snd (f_cancels fs ! m) < 3")
    case False
    then have "fine_step (CancelWrite m) fs = fs" by (intro fine_step_cancel_done) auto
    with CancelWrite inv show ?thesis by simp
  next
    case True
    obtain j c where c: "f_cancels fs ! m = (j, c)" by (cases "f_cancels fs ! m")
    with True have st: "fine_step (CancelWrite m) fs =
        fs\<lparr>f_table := cancel_write j c (f_table fs),
           f_cancels := (f_cancels fs)[m := (j, c + 1)]\<rparr>"
      by (intro fine_step_cancel_write) simp_all
    show ?thesis
    proof (cases "j = k")
      case True
      with st CancelWrite inv show ?thesis
        by (auto simp: own_inv_def cancel_write_def update_conv'
            dest: cancel_assign_completed split: option.splits)
    next
      case False
      with st CancelWrite inv show ?thesis
        by (auto simp: own_inv_def cancel_write_other split: option.splits)
    qed
  qed
qed

lemma own_inv_exec:
  "list_all (own_fine_event n) es \<Longrightarrow> own_inv n k fs \<Longrightarrow> own_inv n k (fine_exec es fs)"
  by (induction es arbitrary: fs) (simp_all add: own_inv_step)

lemma own_inv_creation:
  assumes "creation e"
  shows "own_inv (length (threads sys)) (created_id e) (fine (step e sys))"
proof (cases e)
  case (Generate t_id t_start rnd prompt)
  with assms obtain p where "prompt = Some p" and "p \<noteq> []" by (cases prompt) auto
  with Generate show ?thesis
    by (simp add: own_inv_def fine_def generate_document_def Let_def update_conv' nth_append
        job_of_def initial_generation_status_def)
next
  case (Refine t_id t_start rnd data)
  then show ?thesis
    by (simp add: own_inv_def fine_def refine_document_def Let_def update_conv' nth_append
        job_of_def initial_refinement_status_def)
qed (use assms in simp_all)

text \<open>A completed record of a job under its own thread, with nothing under way.\<close>

lemma fine_step_completed:
  assumes own: "own_fine_event n e" and inv: "own_inv n k fs"
    and rec: "map_of (f_table fs) k = Some s" and c: "stage s = Completed" and q: "quiet k fs"
  shows "map_of (f_table (fine_step e fs)) k = Some s \<and> quiet k (fine_step e fs)"
proof (cases e)
  case (ThreadStep m t)
  with own have m: "m = n" by simp
  from inv have n: "n < length (f_threads fs)" by (simp add: own_inv_def)
  obtain r ph where th: "f_threads fs ! n = (r, ph)" by (cases "f_threads fs ! n")
  with inv have job: "job_of r = k" by (simp add: own_inv_def)
  from inv th rec c have fin: "finished r" by (simp add: own_inv_def)
  from q n th job have ph: "ph = Testing" using quiet_thread [of k fs n] by simp
  from fin have "\<not> (guarded r \<and> passes (f_table fs) (job_of r))"
    by (simp add: finished_not_guarded)
  with n th ph have "fine_step (ThreadStep n t) fs =
      fs\<lparr>f_table := fst (runner_step t (f_table fs) r),
         f_threads := (f_threads fs)[n := (snd (runner_step t (f_table fs) r), Testing)]\<rparr>"
    by (intro fine_step_blocked) simp_all
  with fin have st: "fine_step (ThreadStep n t) fs =
      fs\<lparr>f_table := f_table fs, f_threads := (f_threads fs)[n := (r, Testing)]\<rparr>"
    by (simp add: runner_step_finished)
  from q n have "quiet k (fs\<lparr>f_table := f_table fs,
      f_threads := (f_threads fs)[n := (r, Testing)]\<rparr>)"
    by (rule quiet_update)
  with st rec ThreadStep m show ?thesis by simp
next
  case (CancelTest j)
  show ?thesis
  proof (cases "j = k")
    case True
    with rec c have "\<not> cancel_passes (f_table fs) j" by (simp add: cancel_passes_def)
    with CancelTest rec q show ?thesis by simp
  next
    case False
    with CancelTest rec q show ?thesis by (auto simp: quiet_def)
  qed
next
  case (CancelWrite m)
  show ?thesis
  proof (cases "m < length (f_cancels fs) \<and> snd (f_cancels fs ! m) < 3")
    case False
    then have "fine_step (CancelWrite m) fs = fs" by (intro fine_step_cancel_done) auto
    with CancelWrite rec q show ?thesis by simp
  next
    case True
    obtain j c' where c': "f_cancels fs ! m = (j, c')" by (cases "f_cancels fs ! m")
    with True q have other: "j \<noteq> k" using quiet_cancel [of k fs m] by auto
    from True c' have "fine_step (CancelWrite m) fs =
        fs\<lparr>f_table := cancel_write j c' (f_table fs),
           f_cancels := (f_cancels fs)[m := (j, c' + 1)]\<rparr>"
      by (intro fine_step_cancel_write) simp_all
    moreover from q True other have "quiet k (fs\<lparr>f_table := cancel_write j c' (f_table fs),
        f_cancels := (f_cancels fs)[m := (j, c' + 1)]\<rparr>)"
      by (intro quiet_cancel_update) simp_all
    ultimately show ?thesis using CancelWrite rec other by (simp add: cancel_write_other)
  qed
qed

lemma fine_snapshots_completed:
  "list_all (own_fine_event n) es \<Longrightarrow> own_inv n k fs \<Longrightarrow> map_of (f_table fs) k = Some s \<Longrightarrow>
   stage s = Completed \<Longrightarrow> quiet k fs \<Longrightarrow>
   fine_snapshots k es fs = replicate (Suc (length es)) (Some s)"
proof (induction es arbitrary: fs)
  case Nil
  then show ?case by simp
next
  case (Cons e es)
  from Cons.prems have own: "own_fine_event n e" and rest: "list_all (own_fine_event n) es"
    by simp_all
  from own Cons.prems fine_step_completed [of n e k fs s]
  have "map_of (f_table (fine_step e fs)) k = Some s" and "quiet k (fine_step e fs)"
    by simp_all
  moreover from own Cons.prems have "own_inv n k (fine_step e fs)" by (simp add: own_inv_step)
  ultimately show ?case using Cons.IH [OF rest] Cons.prems by simp
qed

text \<open>
  The same for executions of whole blocks, in which nothing is ever under way between two
  events.
\<close>

lemma own_inv_tables:
  "f_table fs' = f_table fs \<Longrightarrow> f_threads fs' = f_threads fs \<Longrightarrow>
   own_inv n k fs' = own_inv n k fs"
  by (simp add: own_inv_def cong: option.case_cong)

lemma own_inv_block:
  assumes own: "own_event n e" and inv: "own_inv n k (fine sys)"
  shows "own_inv n k (fine (step e sys))"
proof (cases e)
  case (RunnerStep m t)
  with own have o: "own_fine_event n (ThreadStep m t)" by simp
  from o inv have 1: "own_inv n k (fine_step (ThreadStep m t) (fine sys))"
    by (rule own_inv_step)
  from o 1 have "own_inv n k (fine_step (ThreadStep m t) (fine_step (ThreadStep m t) (fine sys)))"
    by (rule own_inv_step)
  with 1 RunnerStep show ?thesis by (simp only: fine_runner_step split: if_splits) simp
next
  case (Cancel j)
  have "own_inv n k (fine_exec [CancelTest j, CancelWrite 0, CancelWrite 0, CancelWrite 0]
      (fine sys))"
    using inv by (intro own_inv_exec) simp_all
  moreover have "own_inv n k (fine (step (Cancel j) sys)) =
      own_inv n k (fine_exec [CancelTest j, CancelWrite 0, CancelWrite 0, CancelWrite 0]
        (fine sys))"
    using fine_cancel [of j sys k] by (intro own_inv_tables) (simp_all add: fine_def)
  ultimately show ?thesis using Cancel by simp
qed (use own in simp_all)

lemma own_inv_blocks:
  "list_all (own_event n) es \<Longrightarrow> own_inv n k (fine sys) \<Longrightarrow>
   own_inv n k (fine (exec es sys))"
  by (induction es arbitrary: sys) (simp_all add: own_inv_block)

lemma step_completed_own:
  assumes own: "own_event n e" and inv: "own_inv n k (fine sys)"
    and rec: "map_of (job_statuses sys) k = Some s" and c: "stage s = Completed"
  shows "map_of (job_statuses (step e sys)) k = Some s"
proof (cases e)
  case (RunnerStep m t)
  with own have m: "m = n" by simp
  from inv rec c have "n < length (threads sys)" and "finished (threads sys ! n)"
    by (auto simp: own_inv_def fine_def)
  with RunnerStep m rec show ?thesis by (simp add: runner_step_finished)
next
  case (Cancel j)
  with rec c show ?thesis
    by (auto simp: cancel_job_def update_conv' split: option.splits)
qed (use own in simp_all)

lemma snapshots_completed_own:
  "list_all (own_event n) es \<Longrightarrow> own_inv n k (fine sys) \<Longrightarrow>
   map_of (job_statuses sys) k = Some s \<Longrightarrow> stage s = Completed \<Longrightarrow>
   snapshots k es sys = replicate (Suc (length es)) (Some s)"
proof (induction es arbitrary: sys)
  case Nil
  then show ?case by simp
next
  case (Cons e es)
  from Cons.prems have own: "own_event n e" and rest: "list_all (own_event n) es"
    by simp_all
  from own Cons.prems have "map_of (job_statuses (step e sys)) k = Some s"
    by (intro step_completed_own [of n]) simp_all
  moreover from own Cons.prems have "own_inv n k (fine (step e sys))"
    by (intro own_inv_block) simp_all
  ultimately show ?case using Cons.IH [OF rest] Cons.prems by simp
qed

lemma own_event_writer: "own_event n e \<Longrightarrow> runner_or_cancel e"
  by (cases e) simp_all

lemma snapshots_terminal_own:
  assumes "creation e" and "list_all (own_event (length (threads sys))) (es1 @ es2)"
    and "map_of (job_statuses (exec es1 (step e sys))) (created_id e) = Some s"
    and "stage s = Completed \<or> stage s = Failed"
  shows "snapshots (created_id e) es2 (exec es1 (step e sys)) =
     replicate (Suc (length es2)) (Some s)"
proof (cases "stage s = Failed")
  case True
  from assms(2) have "list_all runner_or_cancel es2"
    by (auto simp: list_all_iff intro: own_event_writer)
  with True assms(3) show ?thesis by (simp add: snapshots_failed)
next
  case False
  from assms(1) have "own_inv (length (threads sys)) (created_id e) (fine (step e sys))"
    by (rule own_inv_creation)
  with assms(2) have "own_inv (length (threads sys)) (created_id e)
      (fine (exec es1 (step e sys)))"
    by (simp add: own_inv_blocks)
  with assms False show ?thesis
    by (intro snapshots_completed_own [of "length (threads sys)"]) simp_all
qed

subsection \<open>Writers only append to the details\<close>

lemma gen_step_details:
  "map_of tbl k = Some s \<Longrightarrow>
   \<exists>s'. map_of (fst (gen_step t tbl g)) k = Some s' \<and> prefix (details s) (details s')"
  by (auto simp: gen_step_def Let_def update_conv' gen_stage_write_def gen_tick_write_def
      gen_final_write_def split: pc.splits option.splits)

lemma ref_step_details:
  "map_of tbl k = Some s \<Longrightarrow>
   \<exists>s'. map_of (fst (ref_step t tbl f)) k = Some s' \<and> prefix (details s) (details s')"
  by (auto simp: ref_step_def Let_def update_conv' ref_stage_write_def ref_final_write_def
      split: pc.splits option.splits)

lemma runner_step_details:
  "map_of tbl k = Some s \<Longrightarrow>
   \<exists>s'. map_of (fst (runner_step t tbl r)) k = Some s' \<and> prefix (details s) (details s')"
  by (cases r) (simp_all add: runner_step_def split_beta gen_step_details ref_step_details)

lemma cancel_job_details:
  "map_of (job_statuses sys) k = Some s \<Longrightarrow>
   \<exists>s'. map_of (job_statuses (snd (cancel_job j sys))) k = Some s' \<and>
     prefix (details s) (details s')"
  by (auto simp: cancel_job_def update_conv' split: option.splits)

lemma step_details:
  assumes "runner_or_cancel e" and "map_of (job_statuses sys) k = Some s"
  shows "\<exists>s'. map_of (job_statuses (step e sys)) k = Some s' \<and> prefix (details s) (details s')"
proof (cases e)
  case (RunnerStep n t)
  with assms runner_step_details [of "job_statuses sys" k s t "threads sys ! n"]
  show ?thesis by (simp add: split_beta)
next
  case (Cancel j)
  with assms show ?thesis by (simp add: cancel_job_details)
qed (use assms in simp_all)

subsection \<open>Progress under the job's own thread\<close>







subsection \<open>The example executions, evaluated\<close>

lemmas float_eval = fadd_def fsub_def fmul_def fdiv_def py_float_def fl_numeral fl_zero fl_one
  py_int_def millis_def

lemmas handler_eval = generate_document_def refine_document_def cancel_job_def
  initial_generation_status_def initial_refinement_status_def py_or_def refine_of_def
  empty_system_def Let_def

lemmas runner_eval = runner_step_def ref_step_def ref_stage_write_def ref_final_write_def
  ref_stages_def ref_remaining_time_def refined_html_def

lemma new_job_id_example: "new_job_id 1 ''abcdefghi'' = ''job_1000_abcdefghi''"
  by (simp add: new_job_id_def float_eval py_str_int_def str_nat.simps digit_char_def)

lemma completed_refinement_snapshots:
  "map (map_option observed) (snapshots ''j'' completed_refinement empty_system) =
     [None, Some (Analyzing, 5, 900), Some (Analyzing, 5, 900), Some (Analyzing, 20, 12),
      Some (Generating, 60, 9), Some (Finalizing, 95, 2), Some (Completed, 100, 0)]"
  by (simp add: completed_refinement_def observed_def handler_eval runner_eval float_eval)

lemma completed_refinement_state:
  "exec completed_refinement empty_system =
     \<lparr>job_statuses =
        [(''j'',
          \<lparr>jobId = ''j'', stage = Completed, progress = 100,
           message = ''Refinement completed!'', startTime = Some (IntVal 100000),
           estimatedTimeRemaining = 0, currentStep = ''Analyzing'', totalSteps = 4,
           completedSteps = 0,
           details = [''Refinement started'', ''Analyzing existing content''],
           docHtml = Some ''<p>Refined content</p>'', pdfUrl = None\<rparr>)],
      threads =
        [RefRunner \<lparr>f_job_id = ''j'', f_prompt = Some ''Make it shorter'',
           f_selection_html = None, f_full_doc_html = None, f_start_time = 100,
           f_pc = Finished\<rparr>]\<rparr>"
  by (simp add: completed_refinement_def handler_eval runner_eval float_eval)

lemma cancelled_refinement_state:
  "exec cancelled_refinement empty_system =
     \<lparr>job_statuses =
        [(''j'',
          \<lparr>jobId = ''j'', stage = Failed, progress = 20,
           message = ''Job cancelled by user'', startTime = Some (IntVal 100000),
           estimatedTimeRemaining = 0, currentStep = ''Analyzing'', totalSteps = 4,
           completedSteps = 0,
           details = [''Refinement started'', ''Analyzing existing content''],
           docHtml = None, pdfUrl = None\<rparr>)],
      threads =
        [RefRunner \<lparr>f_job_id = ''j'', f_prompt = Some ''Make it shorter'',
           f_selection_html = None, f_full_doc_html = None, f_start_time = 100,
           f_pc = AtStage 1\<rparr>]\<rparr>"
  by (simp add: cancelled_refinement_def handler_eval runner_eval float_eval)

lemma generated_state:
  "snd (generate_document 1 1 ''abcdefghi'' (Some ''Climate report'') empty_system) =
     \<lparr>job_statuses =
        [(''job_1000_abcdefghi'', initial_generation_status ''job_1000_abcdefghi'' 1)],
      threads =
        [GenRunner \<lparr>g_job_id = ''job_1000_abcdefghi'', g_prompt = ''Climate report'',
           g_start_time = 0, g_completed_steps = 0, g_pc = AtStart\<rparr>]\<rparr>"
  by (simp add: generate_document_def Let_def new_job_id_example empty_system_def)

lemma total_duration_value: "total_duration = 30000"
  by code_simp

lemma tick_progress_example: "tick_progress 0 4 = 11"
  by code_simp

lemma updates_values: "map updates gen_stages = [150, 449, 239, 59]"
  by code_simp

lemma ticking_remaining_time: "remaining_time (elapsed 101 100000) = 29"
  by (simp add: remaining_time_def elapsed_def total_duration_value float_eval)

lemmas fine_eval = fine_def guarded_def passes_def job_of_def runner_write_def ref_write_def
  cancel_passes_def cancel_write_def cancel_assign_def refinement_request_def

lemma write_after_cancel_snapshots:
  "map (map_option observed)
     (fine_snapshots ''j'' write_after_cancel (fine (step refinement_request empty_system))) =
     [Some (Analyzing, 5, 900), Some (Analyzing, 5, 900), Some (Analyzing, 5, 900),
      Some (Analyzing, 20, 12), Some (Analyzing, 20, 12), Some (Analyzing, 20, 12),
      Some (Failed, 20, 12), Some (Failed, 20, 12), Some (Failed, 20, 0),
      Some (Generating, 60, 9)]"
  by (simp add: write_after_cancel_def observed_def fine_eval handler_eval runner_eval float_eval)

lemma cancel_after_completion_snapshots:
  "map (map_option observed)
     (fine_snapshots ''j'' cancel_after_completion
        (fine (step refinement_request empty_system))) =
     [Some (Analyzing, 5, 900), Some (Analyzing, 5, 900), Some (Analyzing, 5, 900),
      Some (Analyzing, 20, 12), Some (Analyzing, 20, 12), Some (Generating, 60, 9),
      Some (Generating, 60, 9), Some (Finalizing, 95, 2), Some (Finalizing, 95, 2),
      Some (Finalizing, 95, 2), Some (Completed, 100, 0), Some (Failed, 100, 0),
      Some (Failed, 100, 0), Some (Failed, 100, 0)]"
  by (simp add: cancel_after_completion_def observed_def fine_eval handler_eval runner_eval
      float_eval)

lemma refinement_steps_state:
  "fine_exec refinement_steps (fine (step refinement_request empty_system)) =
     fine (exec completed_refinement empty_system)"
  by (simp add: refinement_steps_def completed_refinement_def fine_eval handler_eval
      runner_eval float_eval)

lemma cancelled_refinement_fine:
  "fine (exec cancelled_refinement empty_system) =
     \<lparr>f_table =
        [(''j'',
          \<lparr>jobId = ''j'', stage = Failed, progress = 20,
           message = ''Job cancelled by user'', startTime = Some (IntVal 100000),
           estimatedTimeRemaining = 0, currentStep = ''Analyzing'', totalSteps = 4,
           completedSteps = 0,
           details = [''Refinement started'', ''Analyzing existing content''],
           docHtml = None, pdfUrl = None\<rparr>)],
      f_threads =
        [(RefRunner \<lparr>f_job_id = ''j'', f_prompt = Some ''Make it shorter'',
           f_selection_html = None, f_full_doc_html = None, f_start_time = 100,
           f_pc = AtStage 1\<rparr>, Testing)],
      f_cancels = []\<rparr>"
  by (simp add: fine_def cancelled_refinement_state)

lemma completed_refinement_fine:
  "fine_exec refinement_steps (fine (step refinement_request empty_system)) =
     \<lparr>f_table =
        [(''j'',
          \<lparr>jobId = ''j'', stage = Completed, progress = 100,
           message = ''Refinement completed!'', startTime = Some (IntVal 100000),
           estimatedTimeRemaining = 0, currentStep = ''Analyzing'', totalSteps = 4,
           completedSteps = 0,
           details = [''Refinement started'', ''Analyzing existing content''],
           docHtml = Some ''<p>Refined content</p>'', pdfUrl = None\<rparr>)],
      f_threads =
        [(RefRunner \<lparr>f_job_id = ''j'', f_prompt = Some ''Make it shorter'',
           f_selection_html = None, f_full_doc_html = None, f_start_time = 100,
           f_pc = Finished\<rparr>, Testing)],
      f_cancels = []\<rparr>"
  by (simp only: refinement_steps_state completed_refinement_state) (simp add: fine_def)

subsection \<open>Fields that no writer changes\<close>

lemma step_keeps_total_steps:
  assumes "runner_or_cancel e" and "map_of (job_statuses sys) k = Some s"
  shows "\<exists>s'. map_of (job_statuses (step e sys)) k = Some s' \<and> totalSteps s' = totalSteps s"
proof (cases e)
  case (RunnerStep n t)
  show ?thesis
  proof (cases "n < length (threads sys)")
    case True
    show ?thesis
    proof (cases "threads sys ! n")
      case (GenRunner g)
      with assms RunnerStep True show ?thesis
        by (auto simp: runner_step_def split_beta gen_step_def Let_def update_conv'
            gen_stage_write_def gen_tick_write_def gen_final_write_def
            split: pc.splits option.splits)
    next
      case (RefRunner f)
      with assms RunnerStep True show ?thesis
        by (auto simp: runner_step_def split_beta ref_step_def update_conv'
            ref_stage_write_def ref_final_write_def split: pc.splits option.splits)
    qed
  next
    case False
    with assms RunnerStep show ?thesis by simp
  qed
next
  case (Cancel j)
  with assms show ?thesis
    by (auto simp: cancel_job_def update_conv' split: option.splits)
qed (use assms in simp_all)

lemma exec_keeps_total_steps:
  "list_all runner_or_cancel es \<Longrightarrow> map_of (job_statuses sys) k = Some s \<Longrightarrow>
   \<exists>s'. map_of (job_statuses (exec es sys)) k = Some s' \<and> totalSteps s' = totalSteps s"
proof (induction es arbitrary: sys s)
  case Nil
  then show ?case by simp
next
  case (Cons e es)
  from Cons.prems obtain s1 where s1: "map_of (job_statuses (step e sys)) k = Some s1"
    and t1: "totalSteps s1 = totalSteps s"
    using step_keeps_total_steps [of e sys k s] by auto
  from Cons.prems have "list_all runner_or_cancel es" by simp
  from Cons.IH [OF this s1] t1 show ?case by auto
qed

lemma generate_mock_document_not_empty: "generate_mock_document prompt \<noteq> []"
  by (simp add: generate_mock_document_def)

lemma refined_html_not_empty: "refined_html full_doc_html \<noteq> []"
  by (simp add: refined_html_def split: option.splits)

subsection \<open>The sweeper\<close>

lemma fold_delete_filter:
  "fold AList.delete ids tbl = filter (\<lambda>e. fst e \<notin> set ids) tbl"
proof (induction ids arbitrary: tbl)
  case Nil
  then show ?case by simp
next
  case (Cons k ids)
  have "AList.delete k tbl = filter (\<lambda>e. fst e \<noteq> k) tbl"
    by (induction tbl) auto
  with Cons show ?case by (simp add: conj_commute)
qed

lemma job_ids_to_delete_numeric:
  "list_all numeric_or_absent tbl \<Longrightarrow>
   job_ids_to_delete (fmul t (py_float 1000)) tbl =
     Inr (map fst (filter (\<lambda>e. \<not> kept t e) tbl))"
proof (induction tbl)
  case Nil
  then show ?case by simp
next
  case (Cons e tbl)
  obtain k s where e: "e = (k, s)" by (cases e)
  from Cons.prems have "list_all numeric_or_absent tbl" by simp
  with Cons.IH have ih: "job_ids_to_delete (fmul t (py_float 1000)) tbl =
      Inr (map fst (filter (\<lambda>e. \<not> kept t e) tbl))" by simp
  from Cons.prems e have "numeric_or_absent (k, s)" by simp
  then show ?case
    by (auto simp: e ih is_old_def kept_def numeric_or_absent_def fsub_def fl_zero
        TWO_HOURS_def split: option.splits py_val.splits)
qed

lemma distinct_key_unique:
  assumes "distinct (map fst tbl)" and "e \<in> set tbl" and "e' \<in> set tbl" and "fst e = fst e'"
  shows "e = e'"
proof -
  obtain k v where e: "e = (k, v)" by (cases e)
  obtain k' v' where e': "e' = (k', v')" by (cases e')
  from assms e e' have "k' = k" by simp
  with assms e e' have "v = v'" using eq_key_imp_eq_value [of tbl k v v'] by simp
  with e e' \<open>k' = k\<close> show ?thesis by simp
qed

lemma py_error_eq: "(e :: py_error) = e'"
  by (cases e; cases e'; simp)

lemma job_ids_to_delete_malformed:
  "\<not> list_all numeric_or_absent tbl \<Longrightarrow> job_ids_to_delete now tbl = Inl TypeError"
proof (induction tbl)
  case Nil
  then show ?case by simp
next
  case (Cons e tbl)
  obtain k s where e: "e = (k, s)" by (cases e)
  show ?case
  proof (cases "numeric_or_absent (k, s)")
    case True
    with Cons e have "job_ids_to_delete now tbl = Inl TypeError" by simp
    then show ?thesis by (simp add: e py_error_eq split: sum.splits)
  next
    case False
    then have "is_old now s = Inl TypeError"
      by (simp add: numeric_or_absent_def is_old_def split: option.splits py_val.splits)
    then show ?thesis by (simp add: e)
  qed
qed

lemma cleanup_pass_malformed:
  "\<not> list_all numeric_or_absent tbl \<Longrightarrow> cleanup_pass t tbl = Inl TypeError"
  by (simp add: cleanup_pass_def job_ids_to_delete_malformed)

lemma cleanup_pass_numeric:
  assumes d: "distinct (map fst tbl)" and n: "list_all numeric_or_absent tbl"
  shows "cleanup_pass t tbl = Inr (filter (kept t) tbl)"
proof -
  let ?ids = "map fst (filter (\<lambda>e. \<not> kept t e) tbl)"
  have "filter (\<lambda>e. fst e \<notin> set ?ids) tbl = filter (kept t) tbl"
  proof (rule filter_cong [OF refl])
    fix e
    assume e: "e \<in> set tbl"
    show "(fst e \<notin> set ?ids) = kept t e"
    proof
      assume "fst e \<notin> set ?ids"
      with e show "kept t e" by force
    next
      assume k: "kept t e"
      show "fst e \<notin> set ?ids"
      proof
        assume "fst e \<in> set ?ids"
        then obtain e' where "e' \<in> set tbl" and "\<not> kept t e'" and "fst e' = fst e" by auto
        with d e have "e' = e" using distinct_key_unique [of tbl e' e] by simp
        with \<open>\<not> kept t e'\<close> k show False by simp
      qed
    qed
  qed
  with n show ?thesis
    by (simp add: cleanup_pass_def job_ids_to_delete_numeric fold_delete_filter)
qed

lemma sleep_until_later: "c + 300 \<le> sleep_until c lag"
  by (simp add: sleep_until_def)

lemma cleanup_loop_spaced: "spaced c (fst (cleanup_loop c lags tbl))"
  by (induction lags arbitrary: c tbl)
    (simp_all add: Let_def split_beta sleep_until_later split: sum.splits)

lemma cleanup_loop_numeric:
  "distinct (map fst tbl) \<Longrightarrow> list_all numeric_or_absent tbl \<Longrightarrow>
   cleanup_loop c lags tbl =
     (wake_ups c lags, Inr (fold (\<lambda>t. filter (kept t)) (wake_ups c lags) tbl))"
proof (induction lags arbitrary: c tbl)
  case Nil
  then show ?case by simp
next
  case (Cons lag lags)
  let ?t = "sleep_until c lag"
  from Cons.prems have pass: "cleanup_pass ?t tbl = Inr (filter (kept ?t) tbl)"
    by (rule cleanup_pass_numeric)
  from Cons.prems have "distinct (map fst (filter (kept ?t) tbl))"
    and "list_all numeric_or_absent (filter (kept ?t) tbl)"
    by (simp_all add: distinct_map_filter list_all_iff)
  then have "cleanup_loop ?t lags (filter (kept ?t) tbl) =
      (wake_ups ?t lags, Inr (fold (\<lambda>t. filter (kept t)) (wake_ups ?t lags)
        (filter (kept ?t) tbl)))"
    by (rule Cons.IH)
  with pass show ?case by (simp add: Let_def)
qed

section \<open>The claims\<close>

subsection \<open>C1: Terminal records\<close>

text \<open>
  C1 (as amended). A runner tests the record before every write, but only for absent or
  failed, not for completed, and nothing is locked between a test and the write that
  follows it. In the executions that interleave threads and cancel calls between every
  test and every write:
  \<^item> a record whose stage is failed, at a moment when no thread of the job is between a
    test and its write and no cancel call for the job is between its test and its last
    assignment, is the same record in every later snapshot, whatever threads there are
    and whatever steps they and any cancel calls take; so it keeps its stage, progress
    and estimatedTimeRemaining;
  \<^item> the same holds for a record whose stage is completed, for a job that since its
    creation is written only by the thread started at its creation and by cancel calls;
  \<^item> a thread at a test writes nothing in that step, and it goes on to its write exactly
    if it stands before a block that writes and finds the record present and not failed.
\<close>

theorem terminal_record_immutable:
  "(map_of (f_table fs) job_id = Some status \<and> stage status = Failed \<and> quiet job_id fs \<longrightarrow>
      fine_snapshots job_id es fs = replicate (Suc (length es)) (Some status)) \<and>
   (creation e \<and> list_all (own_fine_event (length (threads sys))) (es1 @ es2) \<and>
      map_of (f_table (fine_exec es1 (fine (step e sys)))) (created_id e) = Some status' \<and>
      stage status' = Completed \<and> quiet (created_id e) (fine_exec es1 (fine (step e sys))) \<longrightarrow>
      fine_snapshots (created_id e) es2 (fine_exec es1 (fine (step e sys))) =
        replicate (Suc (length es2)) (Some status')) \<and>
   (n < length (f_threads fs) \<and> f_threads fs ! n = (r, Testing) \<longrightarrow>
      f_table (fine_step (ThreadStep n t) fs) = f_table fs \<and>
      (snd (f_threads (fine_step (ThreadStep n t) fs) ! n) = Writing) =
        (guarded r \<and> passes (f_table fs) (job_of r)))"
proof (intro conjI impI)
  assume "map_of (f_table fs) job_id = Some status \<and> stage status = Failed \<and> quiet job_id fs"
  then show "fine_snapshots job_id es fs = replicate (Suc (length es)) (Some status)"
    by (simp add: fine_snapshots_failed)
next
  assume a: "creation e \<and> list_all (own_fine_event (length (threads sys))) (es1 @ es2) \<and>
      map_of (f_table (fine_exec es1 (fine (step e sys)))) (created_id e) = Some status' \<and>
      stage status' = Completed \<and> quiet (created_id e) (fine_exec es1 (fine (step e sys)))"
  then have "own_inv (length (threads sys)) (created_id e) (fine (step e sys))"
    by (simp add: own_inv_creation)
  with a have "own_inv (length (threads sys)) (created_id e) (fine_exec es1 (fine (step e sys)))"
    by (simp add: own_inv_exec)
  with a show "fine_snapshots (created_id e) es2 (fine_exec es1 (fine (step e sys))) =
      replicate (Suc (length es2)) (Some status')"
    by (intro fine_snapshots_completed [of "length (threads sys)"]) simp_all
next
  assume "n < length (f_threads fs) \<and> f_threads fs ! n = (r, Testing)"
  then show "f_table (fine_step (ThreadStep n t) fs) = f_table fs"
    using fine_step_testing [of n fs r t] by blast
next
  assume "n < length (f_threads fs) \<and> f_threads fs ! n = (r, Testing)"
  then show "(snd (f_threads (fine_step (ThreadStep n t) fs) ! n) = Writing) =
      (guarded r \<and> passes (f_table fs) (job_of r))"
    using fine_step_testing [of n fs r t] by blast
qed

text \<open>
  An instance of C1. The refinement of job \<open>j\<close> cancelled in its first stage stays
  failed with progress 20 while its thread makes the test of its second stage and ends,
  and while a second cancel call arrives; the test of the thread writes nothing and does
  not lead to a write. The refinement run to its end stays completed with progress 100
  under a further step of its thread and a cancel call.
\<close>

theorem terminal_record_immutable_witness:
  "map (map_option observed)
     (fine_snapshots ''j'' [ThreadStep 0 103, ThreadStep 0 103, CancelTest ''j'', CancelWrite 0]
        (fine (exec cancelled_refinement empty_system))) =
     [Some (Failed, 20, 0), Some (Failed, 20, 0), Some (Failed, 20, 0), Some (Failed, 20, 0),
      Some (Failed, 20, 0)] \<and>
   map (map_option observed)
     (fine_snapshots ''j'' [ThreadStep 0 120, CancelTest ''j'', CancelWrite 0]
        (fine_exec refinement_steps (fine (step refinement_request empty_system)))) =
     [Some (Completed, 100, 0), Some (Completed, 100, 0), Some (Completed, 100, 0),
      Some (Completed, 100, 0)] \<and>
   f_table (fine_step (ThreadStep 0 103) (fine (exec cancelled_refinement empty_system))) =
     f_table (fine (exec cancelled_refinement empty_system)) \<and>
   snd (f_threads (fine_step (ThreadStep 0 103)
     (fine (exec cancelled_refinement empty_system))) ! 0) \<noteq> Writing"
proof -
  let ?failed = "\<lparr>jobId = ''j'', stage = Failed, progress = 20,
           message = ''Job cancelled by user'', startTime = Some (IntVal 100000),
           estimatedTimeRemaining = 0, currentStep = ''Analyzing'', totalSteps = 4,
           completedSteps = 0,
           details = [''Refinement started'', ''Analyzing existing content''],
           docHtml = None, pdfUrl = None\<rparr>"
  let ?completed = "\<lparr>jobId = ''j'', stage = Completed, progress = 100,
           message = ''Refinement completed!'', startTime = Some (IntVal 100000),
           estimatedTimeRemaining = 0, currentStep = ''Analyzing'', totalSteps = 4,
           completedSteps = 0,
           details = [''Refinement started'', ''Analyzing existing content''],
           docHtml = Some ''<p>Refined content</p>'', pdfUrl = None\<rparr>"
  let ?r = "RefRunner \<lparr>f_job_id = ''j'', f_prompt = Some ''Make it shorter'',
           f_selection_html = None, f_full_doc_html = None, f_start_time = 100,
           f_pc = AtStage 1\<rparr>"
  let ?fs = "fine (exec cancelled_refinement empty_system)"
  let ?fs' = "fine_exec refinement_steps (fine (step refinement_request empty_system))"
  note inst = terminal_record_immutable [of ?fs "''j''" ?failed
      "[ThreadStep 0 103, ThreadStep 0 103, CancelTest ''j'', CancelWrite 0]"
      refinement_request empty_system refinement_steps
      "[ThreadStep 0 120, CancelTest ''j'', CancelWrite 0]" ?completed 0 ?r 103]
  have st: "?fs = \<lparr>f_table = [(''j'', ?failed)], f_threads = [(?r, Testing)], f_cancels = []\<rparr>"
    by (rule cancelled_refinement_fine)
  have st': "?fs' = \<lparr>f_table = [(''j'', ?completed)],
      f_threads = [(RefRunner \<lparr>f_job_id = ''j'', f_prompt = Some ''Make it shorter'',
           f_selection_html = None, f_full_doc_html = None, f_start_time = 100,
           f_pc = Finished\<rparr>, Testing)], f_cancels = []\<rparr>"
    by (rule completed_refinement_fine)
  have id: "created_id refinement_request = ''j''"
    by (simp add: refinement_request_def refine_of_def py_or_def)
  have 1: "map_of (f_table ?fs) ''j'' = Some ?failed \<and> stage ?failed = Failed \<and> quiet ''j'' ?fs"
    unfolding st by (simp add: quiet_def job_of_def)
  have "creation refinement_request"
    by (simp add: refinement_request_def)
  moreover have "list_all (own_fine_event (length (threads empty_system)))
      (refinement_steps @ [ThreadStep 0 120, CancelTest ''j'', CancelWrite 0])"
    by (simp add: refinement_steps_def empty_system_def)
  moreover have "map_of (f_table ?fs') (created_id refinement_request) = Some ?completed \<and>
      stage ?completed = Completed \<and> quiet (created_id refinement_request) ?fs'"
    unfolding st' id by (simp add: quiet_def job_of_def)
  ultimately have 2: "creation refinement_request \<and>
      list_all (own_fine_event (length (threads empty_system)))
        (refinement_steps @ [ThreadStep 0 120, CancelTest ''j'', CancelWrite 0]) \<and>
      map_of (f_table ?fs') (created_id refinement_request) = Some ?completed \<and>
      stage ?completed = Completed \<and> quiet (created_id refinement_request) ?fs'"
    by blast
  have 3: "0 < length (f_threads ?fs) \<and> f_threads ?fs ! 0 = (?r, Testing)"
    unfolding st by simp
  from inst 1 have a: "fine_snapshots ''j''
      [ThreadStep 0 103, ThreadStep 0 103, CancelTest ''j'', CancelWrite 0] ?fs =
      replicate (Suc (length [ThreadStep 0 103, ThreadStep 0 103, CancelTest ''j'',
        CancelWrite 0])) (Some ?failed)"
    by blast
  from inst 2 have b: "fine_snapshots ''j'' [ThreadStep 0 120, CancelTest ''j'', CancelWrite 0] ?fs' =
      replicate (Suc (length [ThreadStep 0 120, CancelTest ''j'', CancelWrite 0]))
        (Some ?completed)"
    unfolding id by blast
  from inst 3 have c: "f_table (fine_step (ThreadStep 0 103) ?fs) = f_table ?fs \<and>
      (snd (f_threads (fine_step (ThreadStep 0 103) ?fs) ! 0) = Writing) =
        (guarded ?r \<and> passes (f_table ?fs) (job_of ?r))"
    by blast
  have d: "\<not> passes (f_table ?fs) (job_of ?r)"
    unfolding st by (simp add: passes_def job_of_def)
  show ?thesis
  proof (intro conjI)
    show "map (map_option observed)
       (fine_snapshots ''j'' [ThreadStep 0 103, ThreadStep 0 103, CancelTest ''j'', CancelWrite 0]
          ?fs) =
       [Some (Failed, 20, 0), Some (Failed, 20, 0), Some (Failed, 20, 0), Some (Failed, 20, 0),
        Some (Failed, 20, 0)]"
      unfolding a by (simp add: observed_def)
    show "map (map_option observed)
       (fine_snapshots ''j'' [ThreadStep 0 120, CancelTest ''j'', CancelWrite 0] ?fs') =
       [Some (Completed, 100, 0), Some (Completed, 100, 0), Some (Completed, 100, 0),
        Some (Completed, 100, 0)]"
      unfolding b by (simp add: observed_def)
    from c show "f_table (fine_step (ThreadStep 0 103) ?fs) = f_table ?fs"
      by blast
    from c d show "snd (f_threads (fine_step (ThreadStep 0 103) ?fs) ! 0) \<noteq> Writing"
      by blast
  qed
qed

text \<open>
  C1 as stated fails in three ways. With two overlapping refinements of job \<open>j\<close>, in
  whole blocks, the first thread completes the job at second 112 (progress 100, no time
  remaining); the second thread, which tests only for failed, then writes stage generating,
  progress 60 and 9 seconds remaining. With one refinement and one cancel call, the
  thread passes the test of its second stage, the cancel call marks the record failed
  with 12 seconds remaining and then sets them to 0, and the thread writes stage
  generating, progress 60 and 9 seconds remaining into the failed record. And when the
  cancel call passes its test during the last stage, the thread completes the job and the
  cancel call then marks the completed record failed.
\<close>

theorem terminal_record_overwritten:
  "map (map_option observed) (snapshots ''j'' overlapping_refinements empty_system) =
     [None, Some (Analyzing, 5, 900), Some (Analyzing, 5, 900), Some (Analyzing, 20, 12),
      Some (Generating, 60, 9), Some (Finalizing, 95, 2), Some (Analyzing, 5, 900),
      Some (Analyzing, 5, 900), Some (Analyzing, 20, 12), Some (Completed, 100, 0),
      Some (Generating, 60, 9)] \<and>
   map (map_option observed)
     (fine_snapshots ''j'' write_after_cancel (fine (step refinement_request empty_system))) =
     [Some (Analyzing, 5, 900), Some (Analyzing, 5, 900), Some (Analyzing, 5, 900),
      Some (Analyzing, 20, 12), Some (Analyzing, 20, 12), Some (Analyzing, 20, 12),
      Some (Failed, 20, 12), Some (Failed, 20, 12), Some (Failed, 20, 0),
      Some (Generating, 60, 9)] \<and>
   map (map_option observed)
     (fine_snapshots ''j'' cancel_after_completion
        (fine (step refinement_request empty_system))) =
     [Some (Analyzing, 5, 900), Some (Analyzing, 5, 900), Some (Analyzing, 5, 900),
      Some (Analyzing, 20, 12), Some (Analyzing, 20, 12), Some (Generating, 60, 9),
      Some (Generating, 60, 9), Some (Finalizing, 95, 2), Some (Finalizing, 95, 2),
      Some (Finalizing, 95, 2), Some (Completed, 100, 0), Some (Failed, 100, 0),
      Some (Failed, 100, 0), Some (Failed, 100, 0)]"
proof (intro conjI)
  show "map (map_option observed) (snapshots ''j'' overlapping_refinements empty_system) =
     [None, Some (Analyzing, 5, 900), Some (Analyzing, 5, 900), Some (Analyzing, 20, 12),
      Some (Generating, 60, 9), Some (Finalizing, 95, 2), Some (Analyzing, 5, 900),
      Some (Analyzing, 5, 900), Some (Analyzing, 20, 12), Some (Completed, 100, 0),
      Some (Generating, 60, 9)]"
    by (simp add: overlapping_refinements_def observed_def handler_eval runner_eval float_eval)
  show "map (map_option observed)
     (fine_snapshots ''j'' write_after_cancel (fine (step refinement_request empty_system))) =
     [Some (Analyzing, 5, 900), Some (Analyzing, 5, 900), Some (Analyzing, 5, 900),
      Some (Analyzing, 20, 12), Some (Analyzing, 20, 12), Some (Analyzing, 20, 12),
      Some (Failed, 20, 12), Some (Failed, 20, 12), Some (Failed, 20, 0),
      Some (Generating, 60, 9)]"
    by (rule write_after_cancel_snapshots)
  show "map (map_option observed)
     (fine_snapshots ''j'' cancel_after_completion
        (fine (step refinement_request empty_system))) =
     [Some (Analyzing, 5, 900), Some (Analyzing, 5, 900), Some (Analyzing, 5, 900),
      Some (Analyzing, 20, 12), Some (Analyzing, 20, 12), Some (Generating, 60, 9),
      Some (Generating, 60, 9), Some (Finalizing, 95, 2), Some (Finalizing, 95, 2),
      Some (Finalizing, 95, 2), Some (Completed, 100, 0), Some (Failed, 100, 0),
      Some (Failed, 100, 0), Some (Failed, 100, 0)]"
    by (rule cancel_after_completion_snapshots)
qed

subsection \<open>C2: Monotone progress\<close>




subsection \<open>C3: Cancellation\<close>

text \<open>
  C3. Cancelling a job id that has no record answers 404 "Job not found" and changes
  nothing. Cancelling a job whose stage is completed or failed answers "Job already
  completed" and changes nothing. Otherwise the answer is "Job cancelled successfully", and
  one update of the record under that job id sets the stage to failed, the message to "Job
  cancelled by user" and estimatedTimeRemaining to 0; progress and every other field of
  the record, every other record and the threads stay as they were.
\<close>

theorem cancel_job_contract:
  "(map_of (job_statuses sys) job_id = None \<longrightarrow>
      cancel_job job_id sys = (ErrorResponse 404 ''Job not found'', sys)) \<and>
   (\<forall>status. map_of (job_statuses sys) job_id = Some status \<and>
        (stage status = Completed \<or> stage status = Failed) \<longrightarrow>
      cancel_job job_id sys = (MessageResponse ''Job already completed'', sys)) \<and>
   (\<forall>status. map_of (job_statuses sys) job_id = Some status \<and>
        stage status \<noteq> Completed \<and> stage status \<noteq> Failed \<longrightarrow>
      fst (cancel_job job_id sys) = MessageResponse ''Job cancelled successfully'' \<and>
      threads (snd (cancel_job job_id sys)) = threads sys \<and>
      job_statuses (snd (cancel_job job_id sys)) =
        AList.update job_id
          (status\<lparr>stage := Failed, message := ''Job cancelled by user'',
             estimatedTimeRemaining := 0\<rparr>) (job_statuses sys) \<and>
      (\<exists>status'. map_of (job_statuses (snd (cancel_job job_id sys))) job_id = Some status' \<and>
         stage status' = Failed \<and> message status' = ''Job cancelled by user'' \<and>
         estimatedTimeRemaining status' = 0 \<and> progress status' = progress status \<and>
         status'\<lparr>stage := stage status, message := message status,
           estimatedTimeRemaining := estimatedTimeRemaining status\<rparr> = status) \<and>
      (\<forall>k. k \<noteq> job_id \<longrightarrow>
         map_of (job_statuses (snd (cancel_job job_id sys))) k = map_of (job_statuses sys) k))"
  by (auto simp: cancel_job_def update_conv')

text \<open>
  Instances of C3: an unknown job id, the completed refinement of job \<open>j\<close>, and a
  generation cancelled right after its creation (progress stays 0).
\<close>

theorem cancel_job_contract_witness:
  "cancel_job ''unknown'' (exec completed_refinement empty_system) =
     (ErrorResponse 404 ''Job not found'', exec completed_refinement empty_system) \<and>
   cancel_job ''j'' (exec completed_refinement empty_system) =
     (MessageResponse ''Job already completed'', exec completed_refinement empty_system) \<and>
   fst (cancel_job ''job_1000_abcdefghi''
      (snd (generate_document 1 1 ''abcdefghi'' (Some ''Climate report'') empty_system))) =
     MessageResponse ''Job cancelled successfully'' \<and>
   map (map_option observed)
     (snapshots ''job_1000_abcdefghi'' [Cancel ''job_1000_abcdefghi'']
        (snd (generate_document 1 1 ''abcdefghi'' (Some ''Climate report'') empty_system))) =
     [Some (Initializing, 0, 1800), Some (Failed, 0, 0)]"
  using cancel_job_contract [of "exec completed_refinement empty_system" "''unknown''"]
    cancel_job_contract [of "exec completed_refinement empty_system" "''j''"]
    cancel_job_contract [of
      "snd (generate_document 1 1 ''abcdefghi'' (Some ''Climate report'') empty_system)"
      "''job_1000_abcdefghi''"]
  by (simp add: completed_refinement_state generated_state initial_generation_status_def
      observed_def)

subsection \<open>C4: The terminal write\<close>

text \<open>
  C4 (as amended). The final block of the generation runner, on a record that is present
  and not failed, sets stage completed, progress 100, completedSteps 5,
  estimatedTimeRemaining 0, appends the line "Generation complete" to the details and
  attaches a non-empty document and a PDF address; 5 is the totalSteps of a record created
  by a generation request, which no block of a thread and no cancellation changes. The
  final block of the refinement runner sets stage completed, progress 100,
  estimatedTimeRemaining 0 and attaches a non-empty document; it leaves completedSteps,
  totalSteps and the details as they were. Either thread is finished afterwards.
\<close>

theorem terminal_writes:
  "(g_pc g = AtFinal \<and> map_of tbl (g_job_id g) = Some s \<and> stage s \<noteq> Failed \<longrightarrow>
      (\<exists>s'. map_of (fst (gen_step t tbl g)) (g_job_id g) = Some s' \<and>
         stage s' = Completed \<and> progress s' = 100 \<and> completedSteps s' = 5 \<and>
         totalSteps s' = totalSteps s \<and> estimatedTimeRemaining s' = 0 \<and>
         details s' = details s @ [''Generation complete''] \<and>
         docHtml s' = Some (generate_mock_document (g_prompt g)) \<and>
         generate_mock_document (g_prompt g) \<noteq> [] \<and>
         pdfUrl s' = Some (''/api/pdf/'' @ g_job_id g) \<and>
         g_pc (snd (gen_step t tbl g)) = Finished)) \<and>
   (\<forall>p. prompt = Some p \<and> p \<noteq> [] \<and> list_all runner_or_cancel es \<longrightarrow>
      (\<exists>s'. map_of (job_statuses (exec es (snd (generate_document t_id t_start rnd prompt sys))))
           (new_job_id t_id rnd) = Some s' \<and> totalSteps s' = 5)) \<and>
   (f_pc f = AtFinal \<and> map_of tbl (f_job_id f) = Some s \<and> stage s \<noteq> Failed \<longrightarrow>
      (\<exists>s'. map_of (fst (ref_step t tbl f)) (f_job_id f) = Some s' \<and>
         stage s' = Completed \<and> progress s' = 100 \<and> estimatedTimeRemaining s' = 0 \<and>
         completedSteps s' = completedSteps s \<and> totalSteps s' = totalSteps s \<and>
         details s' = details s \<and>
         docHtml s' = Some (refined_html (f_full_doc_html f)) \<and>
         refined_html (f_full_doc_html f) \<noteq> [] \<and>
         f_pc (snd (ref_step t tbl f)) = Finished))"
proof (intro conjI allI impI)
  assume "g_pc g = AtFinal \<and> map_of tbl (g_job_id g) = Some s \<and> stage s \<noteq> Failed"
  then show "\<exists>s'. map_of (fst (gen_step t tbl g)) (g_job_id g) = Some s' \<and>
         stage s' = Completed \<and> progress s' = 100 \<and> completedSteps s' = 5 \<and>
         totalSteps s' = totalSteps s \<and> estimatedTimeRemaining s' = 0 \<and>
         details s' = details s @ [''Generation complete''] \<and>
         docHtml s' = Some (generate_mock_document (g_prompt g)) \<and>
         generate_mock_document (g_prompt g) \<noteq> [] \<and>
         pdfUrl s' = Some (''/api/pdf/'' @ g_job_id g) \<and>
         g_pc (snd (gen_step t tbl g)) = Finished"
    by (simp add: gen_step_def update_conv' gen_final_write_def
        generate_mock_document_not_empty)
next
  fix p
  assume a: "prompt = Some p \<and> p \<noteq> [] \<and> list_all runner_or_cancel es"
  then have "map_of (job_statuses (snd (generate_document t_id t_start rnd prompt sys)))
      (new_job_id t_id rnd) = Some (initial_generation_status (new_job_id t_id rnd) t_start)"
    by (simp add: generate_document_def Let_def update_conv')
  with a exec_keeps_total_steps [of es "snd (generate_document t_id t_start rnd prompt sys)"
      "new_job_id t_id rnd" "initial_generation_status (new_job_id t_id rnd) t_start"]
  show "\<exists>s'. map_of (job_statuses (exec es (snd (generate_document t_id t_start rnd prompt sys))))
           (new_job_id t_id rnd) = Some s' \<and> totalSteps s' = 5"
    by (simp add: initial_generation_status_def)
next
  assume "f_pc f = AtFinal \<and> map_of tbl (f_job_id f) = Some s \<and> stage s \<noteq> Failed"
  then show "\<exists>s'. map_of (fst (ref_step t tbl f)) (f_job_id f) = Some s' \<and>
         stage s' = Completed \<and> progress s' = 100 \<and> estimatedTimeRemaining s' = 0 \<and>
         completedSteps s' = completedSteps s \<and> totalSteps s' = totalSteps s \<and>
         details s' = details s \<and>
         docHtml s' = Some (refined_html (f_full_doc_html f)) \<and>
         refined_html (f_full_doc_html f) \<noteq> [] \<and>
         f_pc (snd (ref_step t tbl f)) = Finished"
    by (simp add: ref_step_def update_conv' ref_final_write_def refined_html_not_empty)
qed

text \<open>
  Instances of C4: the final block of a generation thread and of a refinement thread on
  records in progress, and the totalSteps of a generation after a block of its thread and
  a cancellation.
\<close>

theorem terminal_writes_witness:
  "map_option observed
     (map_of (fst (gen_step 130 ticking_table (ticking_runner\<lparr>g_pc := AtFinal\<rparr>))) ''j'') =
     Some (Completed, 100, 0) \<and>
   (\<exists>s'. map_of (job_statuses
            (exec [RunnerStep 0 1, Cancel ''job_1000_abcdefghi'']
               (snd (generate_document 1 1 ''abcdefghi'' (Some ''Climate report'')
                  empty_system)))) ''job_1000_abcdefghi'' = Some s' \<and> totalSteps s' = 5) \<and>
   map_option observed
     (map_of (fst (ref_step 112 two_jobs_table
        \<lparr>f_job_id = ''b'', f_prompt = None, f_selection_html = None, f_full_doc_html = None,
         f_start_time = 100, f_pc = AtFinal\<rparr>)) ''b'') =
     Some (Completed, 100, 0)"
proof -
  let ?g = "ticking_runner\<lparr>g_pc := AtFinal\<rparr>"
  let ?s = "(initial_generation_status ''j'' 100)\<lparr>stage := Analyzing, progress := 10\<rparr>"
  let ?f = "\<lparr>f_job_id = ''b'', f_prompt = None, f_selection_html = None,
    f_full_doc_html = None, f_start_time = 100, f_pc = AtFinal\<rparr>"
  let ?es = "[RunnerStep 0 1, Cancel ''job_1000_abcdefghi'']"
  have g: "g_pc ?g = AtFinal \<and> map_of ticking_table (g_job_id ?g) = Some ?s \<and> stage ?s \<noteq> Failed"
    by (simp add: ticking_runner_def ticking_table_def)
  have f: "f_pc ?f = AtFinal \<and>
      map_of two_jobs_table (f_job_id ?f) = Some (initial_refinement_status ''b'' 1000) \<and>
      stage (initial_refinement_status ''b'' 1000) \<noteq> Failed"
    by (simp add: two_jobs_table_def initial_refinement_status_def)
  have p: "Some ''Climate report'' = Some ''Climate report'' \<and> ''Climate report'' \<noteq> [] \<and>
      list_all runner_or_cancel ?es"
    by simp
  from terminal_writes [of ?g ticking_table ?s 130 "Some ''Climate report''" ?es 1 1
      "''abcdefghi''" empty_system ?f] g
  obtain s1 where "map_of (fst (gen_step 130 ticking_table ?g)) (g_job_id ?g) = Some s1"
    and "stage s1 = Completed" and "progress s1 = 100" and "estimatedTimeRemaining s1 = 0"
    by blast
  then have 1: "map_option observed (map_of (fst (gen_step 130 ticking_table ?g)) ''j'') =
      Some (Completed, 100, 0)"
    by (simp add: observed_def ticking_runner_def)
  from terminal_writes [of ?g ticking_table ?s 130 "Some ''Climate report''" ?es 1 1
      "''abcdefghi''" empty_system ?f] p
  have "\<exists>s'. map_of (job_statuses (exec ?es
      (snd (generate_document 1 1 ''abcdefghi'' (Some ''Climate report'') empty_system))))
      (new_job_id 1 ''abcdefghi'') = Some s' \<and> totalSteps s' = 5"
    by blast
  then have 2: "\<exists>s'. map_of (job_statuses (exec ?es
      (snd (generate_document 1 1 ''abcdefghi'' (Some ''Climate report'') empty_system))))
      ''job_1000_abcdefghi'' = Some s' \<and> totalSteps s' = 5"
    by (simp only: new_job_id_example)
  from terminal_writes [of ?g two_jobs_table "initial_refinement_status ''b'' 1000" 112
      "Some ''Climate report''" ?es 1 1 "''abcdefghi''" empty_system ?f] f
  obtain s3 where "map_of (fst (ref_step 112 two_jobs_table ?f)) (f_job_id ?f) = Some s3"
    and "stage s3 = Completed" and "progress s3 = 100" and "estimatedTimeRemaining s3 = 0"
    by blast
  then have 3: "map_option observed (map_of (fst (ref_step 112 two_jobs_table ?f)) ''b'') =
      Some (Completed, 100, 0)"
    by (simp add: observed_def)
  from 1 2 3 show ?thesis by (intro conjI)
qed

text \<open>
  C4 as stated fails for a refinement: in the execution that runs the refinement of job
  \<open>j\<close> to its end, the completed record has completedSteps 0 and totalSteps 4, and
  its details are the two lines written at creation in every snapshot.
\<close>

theorem refinement_terminal_write_keeps_steps:
  "map_option stage (map_of (job_statuses (exec completed_refinement empty_system)) ''j'') =
     Some Completed \<and>
   map_option completedSteps (map_of (job_statuses (exec completed_refinement empty_system)) ''j'') =
     Some 0 \<and>
   map_option totalSteps (map_of (job_statuses (exec completed_refinement empty_system)) ''j'') =
     Some 4 \<and>
   map (map_option details) (snapshots ''j'' completed_refinement empty_system) =
     [None, Some [''Refinement started'', ''Analyzing existing content''],
      Some [''Refinement started'', ''Analyzing existing content''],
      Some [''Refinement started'', ''Analyzing existing content''],
      Some [''Refinement started'', ''Analyzing existing content''],
      Some [''Refinement started'', ''Analyzing existing content''],
      Some [''Refinement started'', ''Analyzing existing content'']]"
  by (simp add: completed_refinement_def handler_eval runner_eval float_eval)

subsection \<open>C5: Append-only details\<close>

text \<open>
  C5 (as amended). With every block of a thread and every cancellation taken as one
  indivisible step: the blocks of the background threads (stage entry, tick, terminal
  write) and cancellations only append to the details of a record. After every sequence of
  such events the record is still present and its earlier details are a prefix of its
  later details. A refinement request for an existing job id replaces the details by the
  two lines of a new refinement.
\<close>

theorem details_append_only:
  "list_all runner_or_cancel es \<Longrightarrow> map_of (job_statuses sys) k = Some s \<Longrightarrow>
   \<exists>s'. map_of (job_statuses (exec es sys)) k = Some s' \<and> prefix (details s) (details s')"
proof (induction es arbitrary: sys s)
  case Nil
  then show ?case by simp
next
  case (Cons e es)
  from Cons.prems obtain s1 where s1: "map_of (job_statuses (step e sys)) k = Some s1"
    and p1: "prefix (details s) (details s1)"
    using step_details [of e sys k s] by auto
  from Cons.prems have "list_all runner_or_cancel es" by simp
  from Cons.IH [OF this s1] obtain s' where
    "map_of (job_statuses (exec es (step e sys))) k = Some s'" and "prefix (details s1) (details s')"
    by blast
  with p1 show ?case by (auto intro: prefix_order.trans)
qed

text \<open>
  An instance of C5: a generation followed by blocks of its thread and a cancellation.
\<close>

theorem details_append_only_witness:
  "\<exists>s'. map_of (job_statuses
            (exec [RunnerStep 0 1, RunnerStep 0 1, Cancel ''job_1000_abcdefghi'', RunnerStep 0 2]
               (snd (generate_document 1 1 ''abcdefghi'' (Some ''Climate report'')
                  empty_system)))) ''job_1000_abcdefghi'' = Some s' \<and>
      prefix [''Job created'', ''Validating prompt''] (details s')"
  using details_append_only
    [of "[RunnerStep 0 1, RunnerStep 0 1, Cancel ''job_1000_abcdefghi'', RunnerStep 0 2]"
      "snd (generate_document 1 1 ''abcdefghi'' (Some ''Climate report'') empty_system)"
      "''job_1000_abcdefghi''" "initial_generation_status ''job_1000_abcdefghi'' 1"]
  by (simp add: generate_document_def Let_def new_job_id_example empty_system_def
      initial_generation_status_def)

text \<open>
  C5 as stated fails at a refinement of an existing job: the details written by the
  generation are not a prefix of the details after the refinement request.
\<close>

theorem details_replaced_on_refinement:
  "map (map_option details) (snapshots ''job_1000_abcdefghi'' refined_generation empty_system) =
     [None, Some [''Job created'', ''Validating prompt''],
      Some [''Refinement started'', ''Analyzing existing content'']] \<and>
   \<not> prefix [''Job created'', ''Validating prompt'']
       [''Refinement started'', ''Analyzing existing content'']"
  by (simp add: refined_generation_def handler_eval new_job_id_example)

subsection \<open>C6: Validation of a generation request\<close>

text \<open>
  C6. A generation request whose prompt is absent or empty answers 400 "Prompt is
  required" and leaves the system as it was: no job id, no record, no thread. A request
  with a non-empty prompt answers with the new job id and the status address
  \<^verbatim>\<open>/api/status/<job id>\<close>, stores the initial record under that id and starts
  one generation thread.
\<close>

theorem generate_document_validation:
  "(prompt = None \<or> prompt = Some [] \<longrightarrow>
      generate_document t_id t_start rnd prompt sys =
        (ErrorResponse 400 ''Prompt is required'', sys)) \<and>
   (\<forall>p. prompt = Some p \<and> p \<noteq> [] \<longrightarrow>
      fst (generate_document t_id t_start rnd prompt sys) =
        JobStarted (new_job_id t_id rnd) ''Generation started'' ''<p>Processing...</p>''
          (''/api/status/'' @ new_job_id t_id rnd) \<and>
      map_of (job_statuses (snd (generate_document t_id t_start rnd prompt sys)))
          (new_job_id t_id rnd) =
        Some (initial_generation_status (new_job_id t_id rnd) t_start) \<and>
      threads (snd (generate_document t_id t_start rnd prompt sys)) =
        threads sys @
          [GenRunner \<lparr>g_job_id = new_job_id t_id rnd, g_prompt = p, g_start_time = 0,
             g_completed_steps = 0, g_pc = AtStart\<rparr>])"
  by (auto simp: generate_document_def Let_def update_conv')

text \<open>Instances of C6: an absent, an empty and a non-empty prompt.\<close>

theorem generate_document_validation_witness:
  "generate_document 1 1 ''abcdefghi'' None empty_system =
     (ErrorResponse 400 ''Prompt is required'', empty_system) \<and>
   generate_document 1 1 ''abcdefghi'' (Some []) empty_system =
     (ErrorResponse 400 ''Prompt is required'', empty_system) \<and>
   fst (generate_document 1 1 ''abcdefghi'' (Some ''Climate report'') empty_system) =
     JobStarted ''job_1000_abcdefghi'' ''Generation started'' ''<p>Processing...</p>''
       ''/api/status/job_1000_abcdefghi''"
  using generate_document_validation [of None 1 1 "''abcdefghi''" empty_system]
    generate_document_validation [of "Some []" 1 1 "''abcdefghi''" empty_system]
    generate_document_validation [of "Some ''Climate report''" 1 1 "''abcdefghi''" empty_system]
  by (simp add: new_job_id_example)

subsection \<open>C7: Creation of records\<close>




subsection \<open>C8: Progress and remaining time of a tick\<close>

text \<open>
  C8. The tick with loop index \<open>j\<close> (below the number of ticks of the stage) of stage
  \<open>i\<close> of the generation plan, on a record that is present and not failed, writes as progress the minimum of the next
  stage's floor minus 1 and the integer part of the stage's floor plus the share
  \<^verbatim>\<open>(range / updates) * (j + 1)\<close>, where the next floor of the last stage is 100. This
  value is at least the stage's floor and below the next stage's floor, so at most 99 in
  the last stage. The tick writes as estimatedTimeRemaining the maximum of 0 and the
  integer part of the planned total minus the elapsed time, in seconds, which is not
  negative. No block of the runner but the final one writes progress 100.
\<close>

theorem tick_write_interpolation:
  "(g_pc g = AtTick i j \<and> i < length gen_stages \<and> int j < updates (gen_stages ! i) \<and>
      map_of tbl (g_job_id g) = Some s \<and> stage s \<noteq> Failed \<longrightarrow>
      (\<exists>s'. map_of (fst (gen_step t tbl g)) (g_job_id g) = Some s' \<and>
         progress s' =
           min (next_stage_progress i - 1)
             (py_int (fadd (py_float (si_progress (gen_stages ! i)))
                (fmul (py_truediv (next_stage_progress i - si_progress (gen_stages ! i))
                         (updates (gen_stages ! i)))
                   (py_float (int j + 1))))) \<and>
         si_progress (gen_stages ! i) \<le> progress s' \<and>
         progress s' < next_stage_progress i \<and>
         (i + 1 = length gen_stages \<longrightarrow> next_stage_progress i = 100 \<and> progress s' \<le> 99) \<and>
         estimatedTimeRemaining s' =
           max 0 (py_int (fdiv (fsub total_duration
             (fsub (fmul t (py_float 1000)) (g_start_time g))) (py_float 1000))) \<and>
         0 \<le> estimatedTimeRemaining s')) \<and>
   (g_pc g \<noteq> AtFinal \<and> map_of tbl (g_job_id g) = Some s \<longrightarrow>
      (\<exists>s'. map_of (fst (gen_step t tbl g)) (g_job_id g) = Some s' \<and>
         (progress s' = progress s \<or> progress s' < 100)))"
proof (intro conjI impI)
  assume a: "g_pc g = AtTick i j \<and> i < length gen_stages \<and> int j < updates (gen_stages ! i) \<and>
    map_of tbl (g_job_id g) = Some s \<and> stage s \<noteq> Failed"
  let ?s' = "gen_tick_write i j (remaining_time (elapsed t (g_start_time g))) s"
  from a have look: "map_of (fst (gen_step t tbl g)) (g_job_id g) = Some ?s'"
    by (simp add: gen_step_def Let_def update_conv')
  have up: "tick_progress i j \<le> next_stage_progress i - 1"
    by (rule tick_progress_upper)
  from a have lo: "si_progress (gen_stages ! i) \<le> tick_progress i j"
    by (simp add: tick_progress_lower)
  have last: "i + 1 = length gen_stages \<Longrightarrow> next_stage_progress i = 100"
    by (simp add: next_stage_progress_def)
  have "progress ?s' =
      min (next_stage_progress i - 1)
        (py_int (fadd (py_float (si_progress (gen_stages ! i)))
           (fmul (py_truediv (next_stage_progress i - si_progress (gen_stages ! i))
                    (updates (gen_stages ! i)))
              (py_float (int j + 1)))))"
    by (simp add: gen_tick_write_def tick_progress_def Let_def)
  moreover have "si_progress (gen_stages ! i) \<le> progress ?s'"
    using lo by (simp add: gen_tick_write_def)
  moreover have "progress ?s' < next_stage_progress i"
    using up by (simp add: gen_tick_write_def)
  moreover have "i + 1 = length gen_stages \<longrightarrow> next_stage_progress i = 100 \<and> progress ?s' \<le> 99"
    using up last by (auto simp: gen_tick_write_def)
  moreover have "estimatedTimeRemaining ?s' =
      max 0 (py_int (fdiv (fsub total_duration
        (fsub (fmul t (py_float 1000)) (g_start_time g))) (py_float 1000)))"
    by (simp add: gen_tick_write_def remaining_time_def elapsed_def)
  moreover have "0 \<le> estimatedTimeRemaining ?s'"
    by (simp add: gen_tick_write_def remaining_time_def)
  ultimately show "\<exists>s'. map_of (fst (gen_step t tbl g)) (g_job_id g) = Some s' \<and>
         progress s' =
           min (next_stage_progress i - 1)
             (py_int (fadd (py_float (si_progress (gen_stages ! i)))
                (fmul (py_truediv (next_stage_progress i - si_progress (gen_stages ! i))
                         (updates (gen_stages ! i)))
                   (py_float (int j + 1))))) \<and>
         si_progress (gen_stages ! i) \<le> progress s' \<and>
         progress s' < next_stage_progress i \<and>
         (i + 1 = length gen_stages \<longrightarrow> next_stage_progress i = 100 \<and> progress s' \<le> 99) \<and>
         estimatedTimeRemaining s' =
           max 0 (py_int (fdiv (fsub total_duration
             (fsub (fmul t (py_float 1000)) (g_start_time g))) (py_float 1000))) \<and>
         0 \<le> estimatedTimeRemaining s'"
    using look by blast
next
  assume b: "g_pc g \<noteq> AtFinal \<and> map_of tbl (g_job_id g) = Some s"
  show "\<exists>s'. map_of (fst (gen_step t tbl g)) (g_job_id g) = Some s' \<and>
         (progress s' = progress s \<or> progress s' < 100)"
  proof (cases "g_pc g")
    case (AtStage i)
    have "i < length gen_stages \<Longrightarrow> si_progress (gen_stages ! i) < 100"
      using progress_range_gen_stages [of i] next_stage_progress_le [of i] by simp
    with b AtStage show ?thesis
      by (simp add: gen_step_def Let_def update_conv' gen_stage_write_def)
  next
    case (AtTick i j)
    have "tick_progress i j < 100"
      using tick_progress_upper [of i j] next_stage_progress_le [of i] by simp
    with b AtTick show ?thesis
      by (simp add: gen_step_def Let_def update_conv' gen_tick_write_def)
  qed (use b in \<open>simp_all add: gen_step_def\<close>)
qed

text \<open>
  An instance of C8: the fifth tick of the first stage, one second after the start of the
  thread, takes the progress from 10 to 11 and leaves 29 seconds.
\<close>

theorem tick_write_interpolation_witness:
  "map_option observed (map_of (fst (gen_step 101 ticking_table ticking_runner)) ''j'') =
     Some (Analyzing, 11, 29) \<and>
   map_option observed (map_of ticking_table ''j'') = Some (Analyzing, 10, 1800)"
proof -
  let ?s = "(initial_generation_status ''j'' 100)\<lparr>stage := Analyzing, progress := 10\<rparr>"
  have u: "updates (gen_stages ! 0) = 150"
    using updates_values by (simp add: gen_stages_def)
  have pre: "g_pc ticking_runner = AtTick 0 4 \<and> 0 < length gen_stages \<and>
      int 4 < updates (gen_stages ! 0) \<and>
      map_of ticking_table (g_job_id ticking_runner) = Some ?s \<and> stage ?s \<noteq> Failed"
    by (simp add: ticking_runner_def ticking_table_def length_gen_stages u)
  from tick_write_interpolation [of ticking_runner 0 4 ticking_table ?s 101] pre
  obtain s' where look: "map_of (fst (gen_step 101 ticking_table ticking_runner))
      (g_job_id ticking_runner) = Some s'"
    and "0 \<le> estimatedTimeRemaining s'" by blast
  from look have "s' = gen_tick_write 0 4 (remaining_time (elapsed 101 100000)) ?s"
    by (simp add: gen_step_def ticking_runner_def ticking_table_def Let_def length_gen_stages u)
  with look show ?thesis
    by (simp add: ticking_runner_def ticking_table_def gen_tick_write_def observed_def
        tick_progress_example ticking_remaining_time initial_generation_status_def)
qed

subsection \<open>C9: Retention\<close>

text \<open>
  C9 (as amended). A pass of the sweeper over a table with one record per key:
  \<^item> if every startTime is an integer or absent, the pass deletes exactly the records
    whose startTime is an integer more than 7200000 milliseconds (two hours) before the
    clock reading of the pass, whatever their stage, and keeps the other records unchanged
    and in their order; a record without a startTime has age zero and is kept;
  \<^item> if some startTime is not a number, the pass raises \<^verbatim>\<open>TypeError\<close> before it
    deletes anything.

  With the Redis store in use the sweeper returns at once and makes no pass. Otherwise it
  sleeps 300 seconds before every pass, so that its passes lie at least 300 seconds apart:
  over a table whose startTime fields are integers or absent it makes one pass at each
  wake-up, each on the table the pass before left; over a table with a startTime that is
  not a number its first pass raises, and the sweeper ends without a deletion.
\<close>

theorem cleanup_pass_deletes_old:
  "(distinct (map fst tbl) \<longrightarrow>
      cleanup_pass t tbl =
        (if list_all numeric_or_absent tbl then Inr (filter (kept t) tbl) else Inl TypeError)) \<and>
   cleanup_old_jobs True c lags tbl = ([], Inr tbl) \<and>
   spaced c (fst (cleanup_old_jobs False c lags tbl)) \<and>
   (distinct (map fst tbl) \<and> list_all numeric_or_absent tbl \<longrightarrow>
      cleanup_old_jobs False c lags tbl =
        (wake_ups c lags, Inr (fold (\<lambda>t. filter (kept t)) (wake_ups c lags) tbl))) \<and>
   (\<not> list_all numeric_or_absent tbl \<longrightarrow>
      cleanup_old_jobs False c (lag # lags) tbl = ([sleep_until c lag], Inl TypeError))"
proof (intro conjI impI)
  assume "distinct (map fst tbl)"
  then show "cleanup_pass t tbl =
      (if list_all numeric_or_absent tbl then Inr (filter (kept t) tbl) else Inl TypeError)"
    by (simp add: cleanup_pass_numeric cleanup_pass_malformed)
next
  show "cleanup_old_jobs True c lags tbl = ([], Inr tbl)"
    by (simp add: cleanup_old_jobs_def)
next
  show "spaced c (fst (cleanup_old_jobs False c lags tbl))"
    by (simp add: cleanup_old_jobs_def cleanup_loop_spaced)
next
  assume "distinct (map fst tbl) \<and> list_all numeric_or_absent tbl"
  then show "cleanup_old_jobs False c lags tbl =
      (wake_ups c lags, Inr (fold (\<lambda>t. filter (kept t)) (wake_ups c lags) tbl))"
    by (simp add: cleanup_old_jobs_def cleanup_loop_numeric)
next
  assume "\<not> list_all numeric_or_absent tbl"
  then show "cleanup_old_jobs False c (lag # lags) tbl = ([sleep_until c lag], Inl TypeError)"
    by (simp add: cleanup_old_jobs_def cleanup_pass_malformed)
qed

text \<open>
  An instance of C9. At second 8000 the job created at second 0 is deleted and the job
  created at second 1000 is kept; a sweeper started at second 7700 makes this pass and,
  at second 8300, the pass that deletes the second job. Over the table that has a text
  for a startTime the pass at second 1000000 raises, and the sweeper started at second
  999700 ends with that pass.
\<close>

theorem cleanup_pass_deletes_old_witness:
  "cleanup_pass 8000 two_jobs_table = Inr [(''b'', initial_refinement_status ''b'' 1000)] \<and>
   map_of two_jobs_table ''a'' = Some (initial_generation_status ''a'' 0) \<and>
   cleanup_old_jobs False 7700 [0, 0] two_jobs_table = ([8000, 8300], Inr []) \<and>
   cleanup_pass 1000000 table_with_text_start_time = Inl TypeError \<and>
   cleanup_old_jobs False 999700 [0, 0] table_with_text_start_time =
     ([1000000], Inl TypeError)"
proof -
  note inst = cleanup_pass_deletes_old [where tbl = two_jobs_table and t = 8000 and c = 7700
      and lags = "[0, 0]"]
  note inst' = cleanup_pass_deletes_old [where tbl = table_with_text_start_time and t = 1000000
      and c = 999700 and lags = "[0]" and lag = 0]
  have pre: "distinct (map fst two_jobs_table) \<and> list_all numeric_or_absent two_jobs_table"
    by (simp add: two_jobs_table_def numeric_or_absent_def initial_generation_status_def
        initial_refinement_status_def)
  have pre': "distinct (map fst table_with_text_start_time) \<and>
      \<not> list_all numeric_or_absent table_with_text_start_time"
    by (simp add: table_with_text_start_time_def numeric_or_absent_def
        initial_generation_status_def)
  have f: "filter (kept 8000) two_jobs_table = [(''b'', initial_refinement_status ''b'' 1000)]"
    by (simp add: two_jobs_table_def kept_def initial_generation_status_def
        initial_refinement_status_def float_eval)
  have w: "wake_ups 7700 [0, 0] = [8000, 8300]"
    by (simp add: sleep_until_def)
  have f': "fold (\<lambda>t. filter (kept t)) [8000, 8300] two_jobs_table = []"
    by (simp add: two_jobs_table_def kept_def initial_generation_status_def
        initial_refinement_status_def float_eval)
  have s: "sleep_until 999700 0 = 1000000"
    by (simp add: sleep_until_def)
  from inst pre have 1: "cleanup_pass 8000 two_jobs_table = Inr (filter (kept 8000) two_jobs_table)"
    by simp
  have 2: "map_of two_jobs_table ''a'' = Some (initial_generation_status ''a'' 0)"
    by (simp add: two_jobs_table_def)
  from inst pre have 3: "cleanup_old_jobs False 7700 [0, 0] two_jobs_table =
      (wake_ups 7700 [0, 0], Inr (fold (\<lambda>t. filter (kept t)) (wake_ups 7700 [0, 0])
        two_jobs_table))"
    by blast
  from inst' pre' have 4: "cleanup_pass 1000000 table_with_text_start_time = Inl TypeError"
    by simp
  from inst' pre' have 5: "cleanup_old_jobs False 999700 [0, 0] table_with_text_start_time =
      ([sleep_until 999700 0], Inl TypeError)"
    by blast
  from 1 2 3 4 5 show ?thesis
    unfolding f w f' s by blast
qed

text \<open>
  C9 as stated fails for a record without a startTime and for a record with a malformed
  one. Without a startTime the default of the lookup makes the age zero, and the pass at
  second 1000000 keeps the record. With a text for a startTime the same pass raises
  \<^verbatim>\<open>TypeError\<close>; the table stays as it was, with the malformed record and
  with the record created at second 0, which is older than two hours.
\<close>

theorem missing_or_malformed_start_time:
  "cleanup_pass 1000000 table_without_start_time = Inr table_without_start_time \<and>
   map_option startTime (map_of table_without_start_time ''j'') = Some None \<and>
   cleanup_pass 1000000 table_with_text_start_time = Inl TypeError \<and>
   job_statuses (step (Sweep 1000000) \<lparr>job_statuses = table_with_text_start_time, threads = []\<rparr>) =
     table_with_text_start_time \<and>
   map_option startTime (map_of table_with_text_start_time ''j'') = Some (Some (StrVal ''today''))"
  by (simp add: cleanup_pass_def table_without_start_time_def table_with_text_start_time_def
      is_old_def initial_generation_status_def float_eval TWO_HOURS_def)

subsection \<open>C10: No validation of a refinement request\<close>

text \<open>
  C10. A refinement request is not validated: whatever its fields, also with an absent or
  empty prompt, it answers with a job id and the status address, stores under that id the
  initial refinement record (stage analyzing, progress 5), replacing any record stored
  there, and starts one refinement thread.
\<close>

theorem refine_document_no_validation:
  "fst (refine_document t_id t_start rnd data sys) =
     JobStarted (py_or (rq_jobId data) (new_job_id t_id rnd)) ''Refinement started''
       (py_or (rq_fullDocHtml data) ''<p>Processing...</p>'')
       (''/api/status/'' @ py_or (rq_jobId data) (new_job_id t_id rnd)) \<and>
   map_of (job_statuses (snd (refine_document t_id t_start rnd data sys)))
       (py_or (rq_jobId data) (new_job_id t_id rnd)) =
     Some (initial_refinement_status (py_or (rq_jobId data) (new_job_id t_id rnd)) t_start) \<and>
   stage (initial_refinement_status (py_or (rq_jobId data) (new_job_id t_id rnd)) t_start) =
     Analyzing \<and>
   progress (initial_refinement_status (py_or (rq_jobId data) (new_job_id t_id rnd)) t_start) =
     5 \<and>
   threads (snd (refine_document t_id t_start rnd data sys)) =
     threads sys @
       [RefRunner \<lparr>f_job_id = py_or (rq_jobId data) (new_job_id t_id rnd),
          f_prompt = rq_prompt data, f_selection_html = rq_selectionHtml data,
          f_full_doc_html = rq_fullDocHtml data, f_start_time = 0, f_pc = AtStart\<rparr>]"
  by (simp add: refine_document_def Let_def update_conv' initial_refinement_status_def)

text \<open>Instances of C10: a request with no field at all, and one with an empty prompt.\<close>

theorem refine_document_no_validation_witness:
  "fst (refine_document 1 1 ''abcdefghi''
     \<lparr>rq_jobId = None, rq_prompt = None, rq_selectionHtml = None, rq_fullDocHtml = None\<rparr>
     empty_system) =
     JobStarted ''job_1000_abcdefghi'' ''Refinement started'' ''<p>Processing...</p>''
       ''/api/status/job_1000_abcdefghi'' \<and>
   map_option observed (map_of (job_statuses (snd (refine_document 1 1 ''abcdefghi''
     \<lparr>rq_jobId = None, rq_prompt = Some [], rq_selectionHtml = None, rq_fullDocHtml = None\<rparr>
     empty_system))) ''job_1000_abcdefghi'') = Some (Analyzing, 5, 900)"
  using refine_document_no_validation [of 1 1 "''abcdefghi''"
      "\<lparr>rq_jobId = None, rq_prompt = None, rq_selectionHtml = None, rq_fullDocHtml = None\<rparr>"
      empty_system]
    refine_document_no_validation [of 1 1 "''abcdefghi''"
      "\<lparr>rq_jobId = None, rq_prompt = Some [], rq_selectionHtml = None, rq_fullDocHtml = None\<rparr>"
      empty_system]
  by (simp add: new_job_id_example py_or_def initial_refinement_status_def observed_def)

end
